theory Spec2Isabelle
  imports Complex_Main
begin

section \<open>Python exceptions\<close>

text \<open>
  The exception classes the modelled functions raise, as values. A function that can
  raise returns \<open>pyexn + 'a\<close>, with \<open>Inl\<close> for the exception.
\<close>

datatype pyexn =
    KeyError
  | IndexError
  | ValueError
  | AssertionError
  | AttributeError
  | ZeroDivisionError
  | TypeError

section \<open>Python floats\<close>

text \<open>
  A Python \<open>float\<close> and an entry of a numpy \<open>float64\<close> array are IEEE 754 binary64 numbers: a
  finite value, an infinity with its sign (\<open>Infinity True\<close> is the negative one) or NaN.
  A finite value is kept as the real number it denotes; the two zeros, which compare
  equal, are one value here. A product is the exact product rounded to the nearest
  representable number, ties to the even significand; \<open>round_double\<close> is that rounding.
\<close>

datatype double = Finite real | Infinity bool | NaN

function ilog2 :: "int \<Rightarrow> int" where
  "ilog2 n = (if n < 2 then 0 else ilog2 (n div 2) + 1)"
  by pat_completeness auto
termination
  by (relation "measure nat") auto

declare ilog2.simps [simp del]

text \<open>
  \<open>exponent x\<close> is the integer \<open>e\<close> with \<open>2 ^ e \<le> |x| < 2 ^ (e + 1)\<close>, for \<open>x \<noteq> 0\<close>.
\<close>

definition exponent :: "real \<Rightarrow> int" where
  "exponent x =
     (if 1 \<le> \<bar>x\<bar> then ilog2 \<lfloor>\<bar>x\<bar>\<rfloor>
      else - (ilog2 (\<lceil>1 / \<bar>x\<bar>\<rceil> - 1) + 1))"

definition pow2 :: "int \<Rightarrow> real" where
  "pow2 q = (if 0 \<le> q then 2 ^ nat q else 1 / 2 ^ nat (- q))"

definition round_half_even :: "real \<Rightarrow> int" where
  "round_half_even x =
     (let n = \<lfloor>x\<rfloor>; d = x - of_int n
      in if d < 1 / 2 then n else if 1 / 2 < d then n + 1 else if even n then n else n + 1)"

text \<open>
  The spacing of the representable numbers around \<open>x\<close> is \<open>2 ^ (e - 52)\<close>, with \<open>e\<close> the
  exponent of \<open>x\<close> and at least \<open>-1022\<close> (below that the numbers are subnormal, equally
  spaced); a result of magnitude \<open>2 ^ 1024\<close> or more is an infinity.
\<close>

definition round_double :: "real \<Rightarrow> double" where
  "round_double x =
     (if x = 0 then Finite 0
      else let q = max (exponent x) (- 1022) - 52;
               r = of_int (round_half_even (x / pow2 q)) * pow2 q
           in if pow2 1024 \<le> \<bar>r\<bar> then Infinity (x < 0) else Finite r)"

fun d_mul :: "double \<Rightarrow> double \<Rightarrow> double" where
  "d_mul (Finite x) (Finite y) = round_double (x * y)"
| "d_mul (Finite x) (Infinity s) = (if x = 0 then NaN else Infinity (s \<noteq> (x < 0)))"
| "d_mul (Infinity s) (Finite y) = (if y = 0 then NaN else Infinity (s \<noteq> (y < 0)))"
| "d_mul (Infinity s) (Infinity t) = Infinity (s \<noteq> t)"
| "d_mul NaN y = NaN"
| "d_mul x NaN = NaN"

text \<open>
  \<open>a < b\<close> on floats; every comparison with NaN is false. \<open>a > b\<close> is \<open>b < a\<close>.
\<close>

fun d_less :: "double \<Rightarrow> double \<Rightarrow> bool" where
  "d_less (Finite x) (Finite y) \<longleftrightarrow> x < y"
| "d_less (Finite x) (Infinity s) \<longleftrightarrow> \<not> s"
| "d_less (Infinity s) (Finite y) \<longleftrightarrow> s"
| "d_less (Infinity s) (Infinity t) \<longleftrightarrow> s \<and> \<not> t"
| "d_less NaN y \<longleftrightarrow> False"
| "d_less x NaN \<longleftrightarrow> False"

section \<open>Power flow: the Newton loop (routines/powerflow.py)\<close>

text \<open>
  \<open>newton\<close> runs \<open>while True\<close>: each pass calls \<open>calc_inc\<close>, adds the increment to the
  DAE vectors, increments \<open>niter\<close>, takes \<open>max_mis = max(abs(inc))\<close>, appends it to
  \<open>iter_mis\<close> and then tests, in this order, convergence, the blow-up heuristic and the
  iteration cap. The control flow depends on the system only through the value of
  \<open>max_mis\<close> at each pass, \<open>system.SPF.tol\<close> and \<open>system.SPF.maxit\<close>; the model takes the
  mismatch of the \<open>k\<close>-th pass as \<open>mis k\<close> (passes are numbered from 1, as \<open>niter\<close> is).
  Mismatches and the tolerance are Python floats: \<open>max_mis < system.SPF.tol\<close> is \<open>d_less\<close>,
  and in \<open>max_mis > 1000 * iter_mis[0]\<close> the int 1000 becomes the float 1000.0 and the
  product is the rounded float product \<open>d_mul\<close>. \<open>niter\<close> and \<open>system.SPF.maxit\<close> are ints.

  The function returns \<open>(convergence, niter)\<close>; the third component of the model's
  result records which \<open>break\<close> was taken: \<open>Converged\<close> for the tolerance test,
  \<open>Diverged\<close> for the branch that logs "Blown up in .. iterations." and
  \<open>MaxIterExceeded\<close> for the branch that logs "Reached maximum number of iterations.".
\<close>

datatype outcome = Converged | Diverged | MaxIterExceeded

function newton_loop ::
  "(nat \<Rightarrow> double) \<Rightarrow> double \<Rightarrow> int \<Rightarrow> nat \<Rightarrow> double list \<Rightarrow> bool \<times> nat \<times> outcome" where
  "newton_loop mis tol maxit niter0 iter_mis0 =
     (let niter = niter0 + 1;
          max_mis = mis niter;
          iter_mis = iter_mis0 @ [max_mis]
      in if d_less max_mis tol then (True, niter, Converged)
         else if niter > 5 \<and> d_less (d_mul (Finite 1000) (iter_mis ! 0)) max_mis
           then (False, niter, Diverged)
         else if int niter > maxit then (False, niter, MaxIterExceeded)
         else newton_loop mis tol maxit niter iter_mis)"
  by pat_completeness auto
termination
  by (relation "measure (\<lambda>(mis, tol, maxit, niter0, iter_mis0). nat (maxit - int niter0))") auto

definition newton :: "(nat \<Rightarrow> double) \<Rightarrow> double \<Rightarrow> int \<Rightarrow> bool \<times> nat \<times> outcome" where
  "newton mis tol maxit = newton_loop mis tol maxit 0 []"

text \<open>
  What one pass of the loop decides, given the first mismatch: the pass \<open>k\<close> stops the
  loop exactly when one of the three tests holds.
\<close>

definition blown_up :: "(nat \<Rightarrow> double) \<Rightarrow> nat \<Rightarrow> bool" where
  "blown_up mis k \<longleftrightarrow> k > 5 \<and> d_less (d_mul (Finite 1000) (mis 1)) (mis k)"

definition pass_stops :: "(nat \<Rightarrow> double) \<Rightarrow> double \<Rightarrow> int \<Rightarrow> nat \<Rightarrow> bool" where
  "pass_stops mis tol maxit k \<longleftrightarrow>
     d_less (mis k) tol \<or> blown_up mis k \<or> int k > maxit"

declare newton_loop.simps [simp del]

lemma newton_loop_first:
  fixes mis :: "nat \<Rightarrow> double"
  assumes "iter_mis0 \<noteq> [] \<longrightarrow> iter_mis0 ! 0 = mis 1"
      and "iter_mis0 = [] \<longrightarrow> niter0 = 0"
  shows "(iter_mis0 @ [mis (niter0 + 1)]) ! 0 = mis 1"
proof (cases iter_mis0)
  case Nil
  with assms(2) have "niter0 = 0" by simp
  with Nil show ?thesis by simp
next
  case (Cons a as)
  with assms(1) show ?thesis by simp
qed

lemma newton_loop_result:
  assumes "iter_mis0 \<noteq> [] \<longrightarrow> iter_mis0 ! 0 = mis 1"
      and "iter_mis0 = [] \<longrightarrow> niter0 = 0"
      and "newton_loop mis tol maxit niter0 iter_mis0 = (conv, n, out)"
  shows "niter0 < n \<and> pass_stops mis tol maxit n
         \<and> (\<forall>j. niter0 < j \<and> j < n \<longrightarrow> \<not> pass_stops mis tol maxit j)
         \<and> (conv \<longleftrightarrow> d_less (mis n) tol)
         \<and> (out = Converged \<longleftrightarrow> d_less (mis n) tol)
         \<and> (out = Diverged \<longleftrightarrow> \<not> d_less (mis n) tol \<and> blown_up mis n)"
  using assms
proof (induction mis tol maxit niter0 iter_mis0 rule: newton_loop.induct)
  case (1 mis tol maxit niter0 iter_mis0)
  let ?k = "niter0 + 1"
  let ?im = "iter_mis0 @ [mis ?k]"
  have first: "?im ! 0 = mis 1"
    using "1.prems"(1,2) by (rule newton_loop_first)
  show ?case
  proof (cases "pass_stops mis tol maxit ?k")
    case True
    have res: "(conv, n, out) =
        (if d_less (mis ?k) tol then (True, ?k, Converged)
         else if blown_up mis ?k then (False, ?k, Diverged)
         else (False, ?k, MaxIterExceeded))"
      using "1.prems"(3) True first
      by (subst (asm) newton_loop.simps) (auto simp: pass_stops_def blown_up_def Let_def)
    then have n: "n = ?k" by (auto split: if_splits)
    show ?thesis
      using res True unfolding n by (auto split: if_splits)
  next
    case False
    then have ns: "\<not> d_less (mis ?k) tol"
      "\<not> (?k > 5 \<and> d_less (d_mul (Finite 1000) (?im ! 0)) (mis ?k))" "\<not> int ?k > maxit"
      using first by (auto simp: pass_stops_def blown_up_def)
    have rec: "newton_loop mis tol maxit ?k ?im = (conv, n, out)"
      using "1.prems"(3) ns
      by (subst (asm) newton_loop.simps) (auto simp: Let_def split: if_splits)
    have ih: "?k < n \<and> pass_stops mis tol maxit n
         \<and> (\<forall>j. ?k < j \<and> j < n \<longrightarrow> \<not> pass_stops mis tol maxit j)
         \<and> (conv \<longleftrightarrow> d_less (mis n) tol)
         \<and> (out = Converged \<longleftrightarrow> d_less (mis n) tol)
         \<and> (out = Diverged \<longleftrightarrow> \<not> d_less (mis n) tol \<and> blown_up mis n)"
    proof (rule "1.IH"[OF refl refl refl ns(1) ns(2) ns(3) _ _ rec])
      show "?im \<noteq> [] \<longrightarrow> ?im ! 0 = mis 1" using first by simp
      show "?im = [] \<longrightarrow> ?k = 0" by simp
    qed
    have "\<not> pass_stops mis tol maxit j" if "niter0 < j \<and> j < n" for j
    proof (cases "j = ?k")
      case True
      then show ?thesis using False by simp
    next
      case False
      then have "?k < j \<and> j < n" using that by simp
      then show ?thesis using ih by blast
    qed
    then show ?thesis using ih by auto
  qed
qed

text \<open>
  The product in the blow-up test is the rounded one. With a first mismatch of 0.0082
  and 8.200000000000001 (the float next above 8.2) at every later pass, the exact
  product 8.2 is below the later mismatches, but the float product
  \<open>1000 * 0.0082\<close> is 8.200000000000001 itself: the test is false and the loop runs to
  the iteration cap.
\<close>

lemma rounded_product_example:
  "d_mul (Finite 1000) (Finite (4726978168888073 / 576460752303423488))
     = Finite (4616189618054759 / 562949953421312)"
  by code_simp

lemma newton_rounded_product_example:
  "newton (\<lambda>i. if i = 1 then Finite (4726978168888073 / 576460752303423488)
                  else Finite (4616189618054759 / 562949953421312)) (Finite (1 / 1000000)) 7
     = (False, 8, MaxIterExceeded)"
  by code_simp

text \<open>
  C3. Whenever a run of the Newton loop has a pass \<open>k > 5\<close> (that is, \<open>k\<close> is at most the
  returned \<open>niter\<close>) whose mismatch exceeds 1000 times the mismatch of the first pass, as
  the loop computes and compares them (\<open>max_mis > 1000 * iter_mis[0]\<close> on floats), and does
  not meet the tolerance, the loop stops at that pass through the blow-up branch: it
  returns \<open>niter = k\<close> with \<open>convergence = False\<close>, and the branch taken is the divergence
  one, never the iteration-cap one; nothing is assumed about \<open>maxit\<close>, so this also holds
  when \<open>k\<close> exceeds it.
\<close>

theorem newton_blown_up_stops_as_diverged:
  assumes "newton mis tol maxit = (conv, n, out)"
      and "5 < k" and "k \<le> n"
      and "d_less (d_mul (Finite 1000) (mis 1)) (mis k)" and "\<not> d_less (mis k) tol"
  shows "n = k \<and> conv = False \<and> out = Diverged"
proof -
  have r: "0 < n \<and> pass_stops mis tol maxit n
         \<and> (\<forall>j. 0 < j \<and> j < n \<longrightarrow> \<not> pass_stops mis tol maxit j)
         \<and> (conv \<longleftrightarrow> d_less (mis n) tol)
         \<and> (out = Converged \<longleftrightarrow> d_less (mis n) tol)
         \<and> (out = Diverged \<longleftrightarrow> \<not> d_less (mis n) tol \<and> blown_up mis n)"
    by (rule newton_loop_result[of "[]" mis 0 tol maxit conv n out])
       (use assms(1) in \<open>simp_all add: newton_def\<close>)
  have b: "blown_up mis k"
    using assms(2,4) by (simp add: blown_up_def)
  then have "pass_stops mis tol maxit k"
    by (simp add: pass_stops_def)
  then have "\<not> k < n" using r assms(2) by auto
  then have "n = k" using assms(3) by simp
  then show ?thesis using r b assms(5) by simp
qed

theorem newton_blown_up_stops_as_diverged_witness:
  "newton (\<lambda>i. if i = 6 then Finite 5000 else Finite 1) (Finite (1 / 10)) 5 = (False, 6, Diverged)
   \<and> d_less (d_mul (Finite 1000) (Finite 1)) (Finite 5000)
   \<and> \<not> d_less (Finite 5000) (Finite (1 / 10))"
proof -
  let ?mis = "\<lambda>i::nat. if i = 6 then Finite 5000 else Finite 1"
  have run: "newton ?mis (Finite (1 / 10)) 5 = (False, 6, Diverged)"
    by code_simp
  have gt: "d_less (d_mul (Finite 1000) (Finite 1)) (Finite 5000)"
    by code_simp
  have tol: "\<not> d_less (Finite 5000) (Finite (1 / 10))"
    by simp
  have "(6::nat) = 6 \<and> False = False \<and> Diverged = Diverged"
    by (rule newton_blown_up_stops_as_diverged[OF run, of 6]) (use gt tol in simp_all)
  with run gt tol show ?thesis by simp
qed

section \<open>Power flow: the entry point (routines/powerflow.py)\<close>

text \<open>
  What \<open>run\<close> reads and writes of the system: \<open>system.config.sparselib\<close> and
  \<open>sparselib_alt\<close>, \<open>system.SPF.method\<close> and \<open>system.SPF.solved\<close>, \<open>system.powerflow.solved\<close>,
  the module global \<open>lib\<close>, and the rest of the system (\<open>dae\<close>), which only the routines
  touch. Log lines and the timer are left out.
\<close>

datatype sparse_lib = Umfpack | Klu

record 's system =
  sparselib :: string
  sparselib_alt :: "string list"
  spf_method :: string
  spf_solved :: bool
  powerflow_solved :: bool
  lib :: sparse_lib
  dae :: 's

text \<open>
  The module's side: whether \<open>cvxoptklu\<close> could be imported (\<open>KLU\<close>), and the functions
  that \<open>getattr\<close> can return for the names in \<open>solvers\<close>. \<open>newton\<close> is the loop of the previous
  section run on the system; \<open>fdpf\<close> is its fast-decoupled sibling. \<open>run\<close> only selects and
  calls one of them, so their effect on the system is a parameter here; each returns
  \<open>(convergence, niter)\<close> and the system it leaves.
\<close>

datatype routine = Newton | Fdpf

record 's powerflow_module =
  KLU :: bool
  newton_fn :: "'s system \<Rightarrow> (bool \<times> nat) \<times> 's system"
  fdpf_fn :: "'s system \<Rightarrow> (bool \<times> nat) \<times> 's system"
  post_processing :: "'s system \<Rightarrow> 's system"

definition solvers :: "(string \<times> string) list" where
  "solvers = [(''NR'', ''newton''), (''Newton'', ''newton''), (''FDPF'', ''fdpf''),
              (''FDBX'', ''fdpf''), (''FDXB'', ''fdpf'')]"

text \<open>
  \<open>getattr(importlib.import_module('andes.routines.powerflow'), func_name)\<close>, for the
  two names the table can give. \<open>solvers.get\<close> returns \<open>None\<close> for a missing key.
\<close>

definition module_getattr :: "string option \<Rightarrow> pyexn + routine" where
  "module_getattr func_name =
     (case func_name of
        None \<Rightarrow> Inl TypeError
      | Some name \<Rightarrow>
          if name = ''newton'' then Inr Newton
          else if name = ''fdpf'' then Inr Fdpf
          else Inl AttributeError)"

definition call_routine :: "'s powerflow_module \<Rightarrow> routine \<Rightarrow> 's system \<Rightarrow> (bool \<times> nat) \<times> 's system" where
  "call_routine P r sys = (case r of Newton \<Rightarrow> newton_fn P sys | Fdpf \<Rightarrow> fdpf_fn P sys)"

text \<open>
  \<open>run\<close> in the order of the source: the assertion on the sparse library, the choice of
  \<open>lib\<close>, the rewrite of an unknown method name to \<open>'NR'\<close>, the lookup and the call of the
  routine, then \<open>system.SPF.solved = False\<close> and, on convergence,
  \<open>system.powerflow.solved = True\<close> and \<open>post_processing\<close>. It returns \<open>convergence\<close>.
\<close>

definition sparselib_setup :: "'s powerflow_module \<Rightarrow> 's system \<Rightarrow> 's system" where
  "sparselib_setup P sys =
     (if sparselib sys = ''klu'' \<and> KLU P then sys\<lparr>lib := Klu\<rparr>
      else sys\<lparr>sparselib := ''umfpack'', lib := Umfpack\<rparr>)"

definition solver_setup :: "'s system \<Rightarrow> 's system" where
  "solver_setup sys =
     (if spf_method sys \<notin> set (map fst solvers) then sys\<lparr>spf_method := ''NR''\<rparr> else sys)"

definition finish_run :: "'s powerflow_module \<Rightarrow> (bool \<times> nat) \<times> 's system \<Rightarrow> bool \<times> 's system" where
  "finish_run P res =
     (case res of ((convergence, niter), sys) \<Rightarrow>
        (let sys1 = sys\<lparr>spf_solved := False\<rparr>
         in if convergence then (convergence, post_processing P (sys1\<lparr>powerflow_solved := True\<rparr>))
            else (convergence, sys1)))"

definition run :: "'s powerflow_module \<Rightarrow> 's system \<Rightarrow> pyexn + (bool \<times> 's system)" where
  "run P sys0 =
     (if sparselib sys0 \<notin> set (sparselib_alt sys0) then Inl AssertionError
      else
        (let sys1 = sparselib_setup P sys0;
             sys2 = solver_setup sys1;
             func_name = map_of solvers (spf_method sys2)
         in case module_getattr func_name of
              Inl e \<Rightarrow> Inl e
            | Inr run_powerflow \<Rightarrow> Inr (finish_run P (call_routine P run_powerflow sys2))))"

text \<open>
  A run with an unrecognised method name does fail when the configured sparse library
  is not among the alternatives: the assertion at the top of \<open>run\<close> raises before the
  method is looked at.
\<close>

theorem run_unrecognized_fails_on_sparselib:
  "run \<lparr>KLU = False, newton_fn = (\<lambda>sys. ((True, 1), sys)), fdpf_fn = (\<lambda>sys. ((True, 1), sys)),
         post_processing = (\<lambda>sys. sys)\<rparr>
       \<lparr>sparselib = ''superlu'', sparselib_alt = [''umfpack'', ''klu''], spf_method = ''XYZ'',
         spf_solved = False, powerflow_solved = False, lib = Umfpack, dae = ()\<rparr>
   = Inl AssertionError"
  by (simp add: run_def)

text \<open>
  C8 (amended). For every run whose sparse library passes the assertion
  \<open>sparselib in sparselib_alt\<close>: a method name outside
  \<open>{'NR', 'Newton', 'FDPF', 'FDBX', 'FDXB'}\<close> does not make \<open>run\<close> fail; the method is rewritten
  to \<open>'NR'\<close> and the Newton routine is called on the system so prepared. For \<open>'NR'\<close> and
  \<open>'Newton'\<close> the Newton routine, and for \<open>'FDPF'\<close>, \<open>'FDBX'\<close> and \<open>'FDXB'\<close> the fast-decoupled
  routine, is called with the method name as it was.
\<close>

theorem run_method_dispatch:
  assumes "sparselib sys \<in> set (sparselib_alt sys)"
  shows "(spf_method sys \<notin> {''NR'', ''Newton'', ''FDPF'', ''FDBX'', ''FDXB''} \<longrightarrow>
            run P sys = Inr (finish_run P (newton_fn P ((sparselib_setup P sys)\<lparr>spf_method := ''NR''\<rparr>))))
       \<and> (spf_method sys \<in> {''NR'', ''Newton''} \<longrightarrow>
            run P sys = Inr (finish_run P (newton_fn P (sparselib_setup P sys))))
       \<and> (spf_method sys \<in> {''FDPF'', ''FDBX'', ''FDXB''} \<longrightarrow>
            run P sys = Inr (finish_run P (fdpf_fn P (sparselib_setup P sys))))
       \<and> spf_method (sparselib_setup P sys) = spf_method sys"
proof -
  have m: "spf_method (sparselib_setup P sys) = spf_method sys"
    by (simp add: sparselib_setup_def)
  have a: "sparselib sys \<in> set (sparselib_alt sys) \<Longrightarrow>
      spf_method sys \<notin> {''NR'', ''Newton'', ''FDPF'', ''FDBX'', ''FDXB''} \<Longrightarrow>
      run P sys = Inr (finish_run P (newton_fn P ((sparselib_setup P sys)\<lparr>spf_method := ''NR''\<rparr>)))"
    by (simp add: run_def solver_setup_def solvers_def m module_getattr_def call_routine_def Let_def)
  have b: "sparselib sys \<in> set (sparselib_alt sys) \<Longrightarrow>
      spf_method sys \<in> {''NR'', ''Newton''} \<Longrightarrow>
      run P sys = Inr (finish_run P (newton_fn P (sparselib_setup P sys)))"
    by (auto simp add: run_def solver_setup_def solvers_def m module_getattr_def call_routine_def Let_def)
  have c: "sparselib sys \<in> set (sparselib_alt sys) \<Longrightarrow>
      spf_method sys \<in> {''FDPF'', ''FDBX'', ''FDXB''} \<Longrightarrow>
      run P sys = Inr (finish_run P (fdpf_fn P (sparselib_setup P sys)))"
    by (auto simp add: run_def solver_setup_def solvers_def m module_getattr_def call_routine_def Let_def)
  show ?thesis using assms a b c m by blast
qed

theorem run_method_dispatch_witness:
  "run \<lparr>KLU = False, newton_fn = (\<lambda>sys. ((False, 3), sys\<lparr>dae := ''newton''\<rparr>)),
         fdpf_fn = (\<lambda>sys. ((True, 2), sys\<lparr>dae := ''fdpf''\<rparr>)), post_processing = (\<lambda>sys. sys)\<rparr>
       \<lparr>sparselib = ''klu'', sparselib_alt = [''umfpack'', ''klu''], spf_method = ''XYZ'',
         spf_solved = True, powerflow_solved = False, lib = Umfpack, dae = ''start''\<rparr>
   = Inr (False,
       \<lparr>sparselib = ''umfpack'', sparselib_alt = [''umfpack'', ''klu''], spf_method = ''NR'',
         spf_solved = False, powerflow_solved = False, lib = Umfpack, dae = ''newton''\<rparr>)"
proof -
  let ?P = "\<lparr>KLU = False, newton_fn = (\<lambda>sys. ((False, 3), sys\<lparr>dae := ''newton''\<rparr>)),
         fdpf_fn = (\<lambda>sys. ((True, 2), sys\<lparr>dae := ''fdpf''\<rparr>)), post_processing = (\<lambda>sys. sys)\<rparr>"
  let ?S = "\<lparr>sparselib = ''klu'', sparselib_alt = [''umfpack'', ''klu''], spf_method = ''XYZ'',
         spf_solved = True, powerflow_solved = False, lib = Umfpack, dae = ''start''\<rparr>"
  have h: "sparselib ?S \<in> set (sparselib_alt ?S)" by simp
  show ?thesis
    using run_method_dispatch[OF h, of ?P]
    by (simp add: finish_run_def sparselib_setup_def)
qed

section \<open>Device container: ModelData.add, Model.idx2uid, Model.get (core/model.py)\<close>

text \<open>
  The values a device record carries (an idx, a name, a parameter value): Python's
  \<open>None\<close>, an int, a float (as a real) or a str.

  The keys of the dict \<open>self.uid\<close> are compared with Python's \<open>==\<close>, under which an int
  and the float of the same value are the same key (\<open>1 == 1.0\<close>, with equal hashes).
  \<open>dict_key\<close> maps a value to the representative that is stored in the model's map, so
  that two values are the same key exactly when their representatives are equal.
\<close>

datatype pyval = PNone | PInt int | PFloat real | PStr string

fun dict_key :: "pyval \<Rightarrow> pyval" where
  "dict_key (PInt i) = PFloat (of_int i)"
| "dict_key x = x"

text \<open>
  A container (the \<open>ModelData\<close> part of a model) holds the ordered names of its
  parameters (\<open>self.params\<close>, an OrderedDict), the device count \<open>self.n\<close>, the map
  \<open>self.uid\<close> and its attributes: \<open>md_dict m src\<close> is the object \<open>self.__dict__[src]\<close>, and
  an object is given by its own \<open>__dict__\<close> restricted to the list- or array-valued
  attributes (\<open>v\<close>, \<open>vin\<close>, \<open>pu_coeff\<close> of a parameter; \<open>v\<close>, \<open>a\<close>, \<open>e\<close> of a variable).
  Python lists and one-dimensional arrays are both HOL lists.
\<close>

type_synonym 'a pyobj = "string \<rightharpoonup> 'a list"

record 'a model_data =
  md_params :: "string list"
  md_n :: nat
  md_uid :: "pyval \<rightharpoonup> nat"
  md_dict :: "string \<rightharpoonup> 'a pyobj"

text \<open>
  Modelled from the spec: the \<open>add\<close> method of a parameter (andes/core/param.py, which is
  not among the sources). The container "owns per-device parameter arrays" and devices
  are "added one at a time with keyword data": \<open>instance.add(value)\<close> appends one entry
  to the parameter's \<open>v\<close>. Which value a parameter stores for a given input (its default
  for \<open>None\<close>, a conversion) is the parameter \<open>conv\<close> of the model.
\<close>

definition param_add :: "(string \<Rightarrow> pyval \<Rightarrow> pyval) \<Rightarrow> string \<Rightarrow> pyval \<Rightarrow>
    (string \<rightharpoonup> pyval pyobj) \<Rightarrow> pyexn + (string \<rightharpoonup> pyval pyobj)" where
  "param_add conv name val d =
     (case d name of
        None \<Rightarrow> Inl KeyError
      | Some obj \<Rightarrow>
          (case obj ''v'' of
             None \<Rightarrow> Inl AttributeError
           | Some vs \<Rightarrow> Inr (d(name \<mapsto> obj(''v'' \<mapsto> vs @ [conv name val])))))"

text \<open>
  \<open>kwargs.pop(name, None)\<close> and \<open>kwargs.get(name)\<close>: the value under the key, \<open>None\<close> when
  the key is absent. The keys of \<open>self.params\<close> are distinct, so popping does not change
  what a later parameter reads.
\<close>

definition kwargs_pop :: "(string \<rightharpoonup> pyval) \<Rightarrow> string \<Rightarrow> pyval" where
  "kwargs_pop kwargs name = (case kwargs name of None \<Rightarrow> PNone | Some x \<Rightarrow> x)"

fun add_params :: "(string \<Rightarrow> pyval \<Rightarrow> pyval) \<Rightarrow> (string \<rightharpoonup> pyval) \<Rightarrow> string list \<Rightarrow>
    (string \<rightharpoonup> pyval pyobj) \<Rightarrow> pyexn + (string \<rightharpoonup> pyval pyobj)" where
  "add_params conv kwargs [] d = Inr d"
| "add_params conv kwargs (name # names) d =
     (case param_add conv name (kwargs_pop kwargs name) d of
        Inl e \<Rightarrow> Inl e
      | Inr d' \<Rightarrow> add_params conv kwargs names d')"

text \<open>
  \<open>ModelData.add\<close>: reads \<open>kwargs['idx']\<close> (a KeyError when absent), registers the idx at the
  current count, increments the count, defaults the name to the idx and hands every
  parameter its value. The warning about unused keys is a log line only.
\<close>

definition name_default :: "(string \<rightharpoonup> pyval) \<Rightarrow> pyval \<Rightarrow> (string \<rightharpoonup> pyval)" where
  "name_default kwargs idx =
     (if kwargs_pop kwargs ''name'' = PNone then kwargs(''name'' \<mapsto> idx) else kwargs)"

definition add :: "(string \<Rightarrow> pyval \<Rightarrow> pyval) \<Rightarrow> pyval model_data \<Rightarrow> (string \<rightharpoonup> pyval) \<Rightarrow>
    pyexn + pyval model_data" where
  "add conv m kwargs =
     (case kwargs ''idx'' of
        None \<Rightarrow> Inl KeyError
      | Some idx \<Rightarrow>
          (let uid = (md_uid m)(dict_key idx \<mapsto> md_n m);
               n = md_n m + 1;
               kwargs1 = name_default kwargs idx
           in case add_params conv kwargs1 (md_params m) (md_dict m) of
                Inl e \<Rightarrow> Inl e
              | Inr d \<Rightarrow> Inr (m\<lparr>md_uid := uid, md_n := n, md_dict := d\<rparr>)))"

fun add_devices :: "(string \<Rightarrow> pyval \<Rightarrow> pyval) \<Rightarrow> pyval model_data \<Rightarrow> (string \<rightharpoonup> pyval) list \<Rightarrow>
    pyexn + pyval model_data" where
  "add_devices conv m [] = Inr m"
| "add_devices conv m (kwargs # rest) =
     (case add conv m kwargs of Inl e \<Rightarrow> Inl e | Inr m' \<Rightarrow> add_devices conv m' rest)"

text \<open>
  A container as \<open>ModelData.__init__\<close> leaves it, once a subclass has declared the
  parameters \<open>names\<close>: \<open>idx\<close>, \<open>u\<close> and \<open>name\<close> are declared first, every parameter has an
  empty \<open>v\<close>, no device is registered. The keys of an OrderedDict keep the position of
  their first assignment.
\<close>

fun odict_keys :: "string list \<Rightarrow> string list" where
  "odict_keys [] = []"
| "odict_keys (k # ks) = k # removeAll k (odict_keys ks)"

definition new_model_data :: "string list \<Rightarrow> 'a model_data" where
  "new_model_data names =
     \<lparr>md_params = odict_keys (''idx'' # ''u'' # ''name'' # names), md_n = 0, md_uid = Map.empty,
      md_dict = (\<lambda>name. if name \<in> set (''idx'' # ''u'' # ''name'' # names)
                          then Some [''v'' \<mapsto> []] else None)\<rparr>"

text \<open>
  \<open>Model.idx2uid\<close>: \<open>None\<close> gives \<open>None\<close> (after an error log line), a scalar is looked up
  in \<open>self.uid\<close>, a list is looked up element by element; a missing key is a KeyError.
  Nested lists (which the source flattens first) are not modelled.
\<close>

datatype idx_arg = IdxOne pyval | IdxMany "pyval list"
datatype uid_res = UidNone | UidOne nat | UidMany "nat list"

fun uid_lookup_all :: "(pyval \<rightharpoonup> nat) \<Rightarrow> pyval list \<Rightarrow> pyexn + nat list" where
  "uid_lookup_all uid [] = Inr []"
| "uid_lookup_all uid (i # is) =
     (case uid (dict_key i) of
        None \<Rightarrow> Inl KeyError
      | Some u \<Rightarrow> (case uid_lookup_all uid is of Inl e \<Rightarrow> Inl e | Inr us \<Rightarrow> Inr (u # us)))"

fun idx2uid :: "'a model_data \<Rightarrow> idx_arg \<Rightarrow> pyexn + uid_res" where
  "idx2uid m (IdxOne PNone) = Inr UidNone"
| "idx2uid m (IdxOne idx) =
     (case md_uid m (dict_key idx) of None \<Rightarrow> Inl KeyError | Some u \<Rightarrow> Inr (UidOne u))"
| "idx2uid m (IdxMany idx) =
     (case uid_lookup_all (md_uid m) idx of Inl e \<Rightarrow> Inl e | Inr us \<Rightarrow> Inr (UidMany us))"

text \<open>
  \<open>Model.get\<close> returns \<open>self.__dict__[src].__dict__[attr][uid]\<close>, element by element for a
  list of positions. Positions are never negative; a position past the end is an
  IndexError. Indexing by \<open>None\<close> is rendered as a TypeError.
\<close>

definition getitem :: "'a list \<Rightarrow> nat \<Rightarrow> pyexn + 'a" where
  "getitem xs i = (if i < length xs then Inr (xs ! i) else Inl IndexError)"

fun getitems :: "'a list \<Rightarrow> nat list \<Rightarrow> pyexn + 'a list" where
  "getitems xs [] = Inr []"
| "getitems xs (i # is) =
     (case getitem xs i of
        Inl e \<Rightarrow> Inl e
      | Inr x \<Rightarrow> (case getitems xs is of Inl e \<Rightarrow> Inl e | Inr ys \<Rightarrow> Inr (x # ys)))"

datatype 'a get_res = GetOne 'a | GetMany "'a list"

definition lookup_attr :: "'a model_data \<Rightarrow> string \<Rightarrow> string \<Rightarrow> pyexn + 'a list" where
  "lookup_attr m src attr =
     (case md_dict m src of
        None \<Rightarrow> Inl KeyError
      | Some obj \<Rightarrow> (case obj attr of None \<Rightarrow> Inl KeyError | Some xs \<Rightarrow> Inr xs))"

definition get :: "'a model_data \<Rightarrow> string \<Rightarrow> idx_arg \<Rightarrow> string \<Rightarrow> pyexn + 'a get_res" where
  "get m src idx attr =
     (case idx2uid m idx of
        Inl e \<Rightarrow> Inl e
      | Inr uid \<Rightarrow>
          (case lookup_attr m src attr of
             Inl e \<Rightarrow> Inl e
           | Inr xs \<Rightarrow>
               (case uid of
                  UidMany us \<Rightarrow> (case getitems xs us of Inl e \<Rightarrow> Inl e | Inr ys \<Rightarrow> Inr (GetMany ys))
                | UidOne u \<Rightarrow> (case getitem xs u of Inl e \<Rightarrow> Inl e | Inr y \<Rightarrow> Inr (GetOne y))
                | UidNone \<Rightarrow> Inl TypeError)))"

subsection \<open>Adding devices keeps the index map in step with the arrays\<close>

text \<open>
  The invariant of a container: parameter names are distinct and every parameter has a
  \<open>v\<close> array. \<open>stored_v m name\<close> reads that array; \<open>device_value kwargs name\<close> is the value
  \<open>add\<close> hands to the parameter \<open>name\<close> for the device record \<open>kwargs\<close>.
\<close>

definition params_ok :: "'a model_data \<Rightarrow> bool" where
  "params_ok m \<longleftrightarrow> distinct (md_params m) \<and>
     (\<forall>name \<in> set (md_params m). \<exists>obj vs. md_dict m name = Some obj \<and> obj ''v'' = Some vs)"

definition stored_v :: "'a model_data \<Rightarrow> string \<Rightarrow> 'a list" where
  "stored_v m name = (case md_dict m name of None \<Rightarrow> [] | Some obj \<Rightarrow> (case obj ''v'' of None \<Rightarrow> [] | Some vs \<Rightarrow> vs))"

definition device_value :: "(string \<rightharpoonup> pyval) \<Rightarrow> string \<Rightarrow> pyval" where
  "device_value kwargs name = kwargs_pop (name_default kwargs (kwargs_pop kwargs ''idx'')) name"

lemma distinct_odict_keys: "distinct (odict_keys ks)"
  by (induction ks) (auto simp: distinct_removeAll)

lemma set_odict_keys: "set (odict_keys ks) = set ks"
  by (induction ks) auto

lemma params_ok_new: "params_ok (new_model_data names)"
  unfolding params_ok_def new_model_data_def
  by (simp only: model_data.simps distinct_odict_keys set_odict_keys) auto

lemma add_params_effect:
  assumes "distinct names"
      and "\<forall>name \<in> set names. \<exists>obj vs. d name = Some obj \<and> obj ''v'' = Some vs"
  shows "\<exists>d'. add_params conv kwargs names d = Inr d'
           \<and> (\<forall>x. x \<notin> set names \<longrightarrow> d' x = d x)
           \<and> (\<forall>x \<in> set names. \<exists>obj vs. d x = Some obj \<and> obj ''v'' = Some vs
                  \<and> d' x = Some (obj(''v'' \<mapsto> vs @ [conv x (kwargs_pop kwargs x)])))"
  using assms
proof (induction names arbitrary: d)
  case Nil
  then show ?case by simp
next
  case (Cons name names)
  from Cons.prems(2) obtain obj vs where o: "d name = Some obj" "obj ''v'' = Some vs"
    by auto
  let ?d1 = "d(name \<mapsto> obj(''v'' \<mapsto> vs @ [conv name (kwargs_pop kwargs name)]))"
  have step: "param_add conv name (kwargs_pop kwargs name) d = Inr ?d1"
    using o by (simp add: param_add_def)
  have notin: "name \<notin> set names" and dist: "distinct names"
    using Cons.prems(1) by auto
  have pre: "\<forall>x \<in> set names. \<exists>obj vs. ?d1 x = Some obj \<and> obj ''v'' = Some vs"
    using Cons.prems(2) notin by auto
  from Cons.IH[OF dist pre] obtain d' where d':
    "add_params conv kwargs names ?d1 = Inr d'"
    "\<forall>x. x \<notin> set names \<longrightarrow> d' x = ?d1 x"
    "\<forall>x \<in> set names. \<exists>obj vs. ?d1 x = Some obj \<and> obj ''v'' = Some vs
        \<and> d' x = Some (obj(''v'' \<mapsto> vs @ [conv x (kwargs_pop kwargs x)]))"
    by blast
  have "add_params conv kwargs (name # names) d = Inr d'"
    using step d'(1) by simp
  moreover have "\<forall>x. x \<notin> set (name # names) \<longrightarrow> d' x = d x"
    using d'(2) by auto
  moreover have "\<forall>x \<in> set (name # names). \<exists>obj vs. d x = Some obj \<and> obj ''v'' = Some vs
        \<and> d' x = Some (obj(''v'' \<mapsto> vs @ [conv x (kwargs_pop kwargs x)]))"
  proof
    fix x assume "x \<in> set (name # names)"
    then consider "x = name" | "x \<in> set names" "x \<noteq> name" using notin by auto
    then show "\<exists>obj vs. d x = Some obj \<and> obj ''v'' = Some vs
        \<and> d' x = Some (obj(''v'' \<mapsto> vs @ [conv x (kwargs_pop kwargs x)]))"
    proof cases
      case 1
      then show ?thesis using o d'(2) notin by simp
    next
      case 2
      then show ?thesis using d'(3) by auto
    qed
  qed
  ultimately show ?case by blast
qed

lemma add_effect:
  assumes "params_ok m" and "kwargs ''idx'' = Some idx"
  shows "\<exists>m'. add conv m kwargs = Inr m' \<and> params_ok m'
           \<and> md_params m' = md_params m
           \<and> md_n m' = md_n m + 1
           \<and> md_uid m' = (md_uid m)(dict_key idx \<mapsto> md_n m)
           \<and> (\<forall>x \<in> set (md_params m).
                 stored_v m' x = stored_v m x @ [conv x (kwargs_pop (name_default kwargs idx) x)])"
proof -
  from assms(1) have dist: "distinct (md_params m)"
    and ex: "\<forall>name \<in> set (md_params m). \<exists>obj vs. md_dict m name = Some obj \<and> obj ''v'' = Some vs"
    by (auto simp: params_ok_def)
  from add_params_effect[OF dist ex, of conv "name_default kwargs idx"]
  obtain d' where d': "add_params conv (name_default kwargs idx) (md_params m) (md_dict m) = Inr d'"
    "\<forall>x. x \<notin> set (md_params m) \<longrightarrow> d' x = md_dict m x"
    "\<forall>x \<in> set (md_params m). \<exists>obj vs. md_dict m x = Some obj \<and> obj ''v'' = Some vs
        \<and> d' x = Some (obj(''v'' \<mapsto> vs @ [conv x (kwargs_pop (name_default kwargs idx) x)]))"
    by blast
  let ?m' = "m\<lparr>md_uid := (md_uid m)(dict_key idx \<mapsto> md_n m), md_n := md_n m + 1, md_dict := d'\<rparr>"
  have r: "add conv m kwargs = Inr ?m'"
    using assms(2) d'(1) by (simp add: add_def Let_def)
  have ok: "params_ok ?m'"
    using dist d'(3) by (fastforce simp: params_ok_def)
  have st: "\<forall>x \<in> set (md_params m).
      stored_v ?m' x = stored_v m x @ [conv x (kwargs_pop (name_default kwargs idx) x)]"
    using d'(3) by (fastforce simp: stored_v_def)
  show ?thesis using r ok st by auto
qed

lemma add_devices_effect:
  assumes "params_ok m"
      and "map (\<lambda>kwargs. kwargs ''idx'') kws = map Some idxs"
      and "distinct (map dict_key idxs)"
  shows "\<exists>m'. add_devices conv m kws = Inr m' \<and> params_ok m'
           \<and> md_params m' = md_params m
           \<and> md_n m' = md_n m + length idxs
           \<and> (\<forall>i < length idxs. md_uid m' (dict_key (idxs ! i)) = Some (md_n m + i))
           \<and> (\<forall>k. k \<notin> dict_key ` set idxs \<longrightarrow> md_uid m' k = md_uid m k)
           \<and> (\<forall>x \<in> set (md_params m).
                 stored_v m' x = stored_v m x @ map (\<lambda>kwargs. conv x (device_value kwargs x)) kws)"
  using assms
proof (induction kws arbitrary: m idxs)
  case Nil
  then show ?case by simp
next
  case (Cons kw kws)
  from Cons.prems(2) obtain idx rest where idxs: "idxs = idx # rest"
    and kw: "kw ''idx'' = Some idx" and rest: "map (\<lambda>kwargs. kwargs ''idx'') kws = map Some rest"
    by (cases idxs) auto
  from Cons.prems(3) idxs have fresh: "dict_key idx \<notin> dict_key ` set rest"
    and dist: "distinct (map dict_key rest)" by auto
  from add_effect[of m kw idx conv, OF Cons.prems(1) kw] obtain m1 where m1:
    "add conv m kw = Inr m1" "params_ok m1" "md_params m1 = md_params m"
    "md_n m1 = md_n m + 1" "md_uid m1 = (md_uid m)(dict_key idx \<mapsto> md_n m)"
    "\<forall>x \<in> set (md_params m).
        stored_v m1 x = stored_v m x @ [conv x (kwargs_pop (name_default kw idx) x)]"
    by blast
  from Cons.IH[OF m1(2) rest dist] obtain m' where m':
    "add_devices conv m1 kws = Inr m'" "params_ok m'" "md_params m' = md_params m1"
    "md_n m' = md_n m1 + length rest"
    "\<forall>i < length rest. md_uid m' (dict_key (rest ! i)) = Some (md_n m1 + i)"
    "\<forall>k. k \<notin> dict_key ` set rest \<longrightarrow> md_uid m' k = md_uid m1 k"
    "\<forall>x \<in> set (md_params m1).
        stored_v m' x = stored_v m1 x @ map (\<lambda>kwargs. conv x (device_value kwargs x)) kws"
    by blast
  have dv: "kwargs_pop (name_default kw idx) x = device_value kw x" for x
    using kw by (simp add: device_value_def kwargs_pop_def)
  have a: "add_devices conv m (kw # kws) = Inr m'"
    using m1(1) m'(1) by simp
  have b: "md_n m' = md_n m + length idxs"
    using m'(4) m1(4) idxs by simp
  have c: "md_uid m' (dict_key (idxs ! i)) = Some (md_n m + i)" if "i < length idxs" for i
  proof (cases i)
    case 0
    then show ?thesis using idxs fresh m'(6) m1(5) by simp
  next
    case (Suc j)
    then have "j < length rest" using that idxs by simp
    then show ?thesis using m'(5) m1(4) idxs Suc by simp
  qed
  have d: "md_uid m' k = md_uid m k" if "k \<notin> dict_key ` set idxs" for k
  proof -
    from that idxs have "k \<noteq> dict_key idx" "k \<notin> dict_key ` set rest" by auto
    then show ?thesis using m'(6) m1(5) by simp
  qed
  have e: "stored_v m' x = stored_v m x @ map (\<lambda>kwargs. conv x (device_value kwargs x)) (kw # kws)"
    if "x \<in> set (md_params m)" for x
    using that m'(7) m1(3) m1(6) dv by simp
  show ?case
    using a m'(2) m'(3) m1(3) b c d e by auto
qed

lemma idx2uid_scalar:
  "idx \<noteq> PNone \<Longrightarrow>
   idx2uid m (IdxOne idx) =
     (case md_uid m (dict_key idx) of None \<Rightarrow> Inl KeyError | Some u \<Rightarrow> Inr (UidOne u))"
  by (cases idx) simp_all

lemma get_scalar:
  assumes "idx2uid m idx = Inr (UidOne u)"
      and "md_dict m src = Some obj" and "obj attr = Some xs" and "u < length xs"
  shows "get m src idx attr = Inr (GetOne (xs ! u))"
  using assms by (simp add: get_def lookup_attr_def getitem_def)

text \<open>
  C4. Adding \<open>N\<close> devices one at a time to a new container, with idx values that are
  pairwise distinct as dict keys (and none of them \<open>None\<close>), succeeds and leaves
  \<open>n = N\<close>; the keys of \<open>uid\<close> are exactly the declared idx values, \<open>uid\<close> is a bijection from
  them onto the positions \<open>0..N-1\<close>, \<open>idx2uid\<close> of the \<open>i\<close>-th added idx is \<open>i\<close>, and
  \<open>get(src, idx)\<close> for every parameter \<open>src\<close> returns the entry at position \<open>i\<close> of the
  parameter's array, which is the value stored for the \<open>i\<close>-th device.
\<close>

theorem add_devices_idx2uid_bijection:
  assumes "map (\<lambda>kwargs. kwargs ''idx'') kws = map Some idxs"
      and "distinct (map dict_key idxs)"
      and "PNone \<notin> set idxs"
  shows "\<exists>m. add_devices conv (new_model_data names) kws = Inr m
           \<and> md_params m = odict_keys (''idx'' # ''u'' # ''name'' # names)
           \<and> md_n m = length idxs
           \<and> dom (md_uid m) = dict_key ` set idxs
           \<and> bij_betw (\<lambda>idx. the (md_uid m (dict_key idx))) (set idxs) {0..<length idxs}
           \<and> (\<forall>i < length idxs.
                 idx2uid m (IdxOne (idxs ! i)) = Inr (UidOne i)
                 \<and> (\<forall>src \<in> set (md_params m).
                       get m src (IdxOne (idxs ! i)) ''v'' = Inr (GetOne (stored_v m src ! i))
                       \<and> stored_v m src ! i = conv src (device_value (kws ! i) src)))"
proof -
  let ?m0 = "new_model_data names :: pyval model_data"
  have len: "length kws = length idxs"
    using assms(1) by (metis length_map)
  have m0: "md_n ?m0 = 0" "md_uid ?m0 = Map.empty"
    by (simp_all add: new_model_data_def)
  have st0: "stored_v ?m0 x = []" for x
    by (simp add: stored_v_def new_model_data_def)
  from add_devices_effect[where m = ?m0 and conv = conv, OF params_ok_new assms(1,2)]
  obtain m where m: "add_devices conv ?m0 kws = Inr m" "params_ok m"
    "md_params m = md_params ?m0" "md_n m = length idxs"
    "\<forall>i < length idxs. md_uid m (dict_key (idxs ! i)) = Some i"
    "\<forall>k. k \<notin> dict_key ` set idxs \<longrightarrow> md_uid m k = None"
    "\<forall>x \<in> set (md_params m). stored_v m x = map (\<lambda>kwargs. conv x (device_value kwargs x)) kws"
    unfolding m0 st0 by auto
  have uid_at: "md_uid m (dict_key (idxs ! i)) = Some i" if "i < length idxs" for i
    using m(5) that by blast
  have dom: "dom (md_uid m) = dict_key ` set idxs"
  proof
    show "dom (md_uid m) \<subseteq> dict_key ` set idxs"
      using m(6) by (auto simp: dom_def)
    show "dict_key ` set idxs \<subseteq> dom (md_uid m)"
      using uid_at by (auto simp: in_set_conv_nth)
  qed
  have bij: "bij_betw (\<lambda>idx. the (md_uid m (dict_key idx))) (set idxs) {0..<length idxs}"
    unfolding bij_betw_def
  proof
    show "inj_on (\<lambda>idx. the (md_uid m (dict_key idx))) (set idxs)"
    proof (rule inj_onI)
      fix x y assume "x \<in> set idxs" "y \<in> set idxs"
        and eq: "the (md_uid m (dict_key x)) = the (md_uid m (dict_key y))"
      then obtain i j where ij: "i < length idxs" "x = idxs ! i" "j < length idxs" "y = idxs ! j"
        by (auto simp: in_set_conv_nth)
      with eq uid_at have "i = j" by simp
      with ij show "x = y" by simp
    qed
    show "(\<lambda>idx. the (md_uid m (dict_key idx))) ` set idxs = {0..<length idxs}"
    proof
      show "(\<lambda>idx. the (md_uid m (dict_key idx))) ` set idxs \<subseteq> {0..<length idxs}"
        using uid_at by (auto simp: in_set_conv_nth)
      show "{0..<length idxs} \<subseteq> (\<lambda>idx. the (md_uid m (dict_key idx))) ` set idxs"
      proof
        fix i assume "i \<in> {0..<length idxs}"
        then have i: "i < length idxs" by simp
        then have "the (md_uid m (dict_key (idxs ! i))) = i" using uid_at by simp
        moreover have "idxs ! i \<in> set idxs" using i by simp
        ultimately show "i \<in> (\<lambda>idx. the (md_uid m (dict_key idx))) ` set idxs"
          by (metis image_eqI)
      qed
    qed
  qed
  have each: "idx2uid m (IdxOne (idxs ! i)) = Inr (UidOne i)
       \<and> (\<forall>src \<in> set (md_params m).
             get m src (IdxOne (idxs ! i)) ''v'' = Inr (GetOne (stored_v m src ! i))
             \<and> stored_v m src ! i = conv src (device_value (kws ! i) src))"
    if i: "i < length idxs" for i
  proof -
    have "idxs ! i \<noteq> PNone" using assms(3) i by (metis nth_mem)
    then have u: "idx2uid m (IdxOne (idxs ! i)) = Inr (UidOne i)"
      using uid_at[OF i] by (simp add: idx2uid_scalar)
    have "get m src (IdxOne (idxs ! i)) ''v'' = Inr (GetOne (stored_v m src ! i))
          \<and> stored_v m src ! i = conv src (device_value (kws ! i) src)"
      if src: "src \<in> set (md_params m)" for src
    proof -
      from m(2) src obtain obj vs where o: "md_dict m src = Some obj" "obj ''v'' = Some vs"
        by (auto simp: params_ok_def)
      then have sv: "stored_v m src = vs" by (simp add: stored_v_def)
      have vs: "vs = map (\<lambda>kwargs. conv src (device_value kwargs src)) kws"
        using m(7) src sv by simp
      then have l: "i < length vs" using i len by simp
      have "get m src (IdxOne (idxs ! i)) ''v'' = Inr (GetOne (vs ! i))"
        by (rule get_scalar[OF u o l])
      moreover have "vs ! i = conv src (device_value (kws ! i) src)"
        using vs i len by simp
      ultimately show ?thesis using sv by simp
    qed
    with u show ?thesis by blast
  qed
  have ps: "md_params m = odict_keys (''idx'' # ''u'' # ''name'' # names)"
    using m(3) by (simp add: new_model_data_def)
  show ?thesis using m(1) ps m(4) dom bij each by blast
qed

theorem add_devices_idx2uid_bijection_witness:
  "\<exists>m. add_devices (\<lambda>name val. val) (new_model_data [''Vn''])
          [[''idx'' \<mapsto> PInt 7, ''Vn'' \<mapsto> PFloat 110], [''idx'' \<mapsto> PStr ''b'']] = Inr m
     \<and> md_n m = 2
     \<and> idx2uid m (IdxOne (PInt 7)) = Inr (UidOne 0)
     \<and> idx2uid m (IdxOne (PStr ''b'')) = Inr (UidOne 1)
     \<and> get m ''Vn'' (IdxOne (PInt 7)) ''v'' = Inr (GetOne (PFloat 110))
     \<and> get m ''name'' (IdxOne (PStr ''b'')) ''v'' = Inr (GetOne (PStr ''b''))"
proof -
  let ?kws = "[[''idx'' \<mapsto> PInt 7, ''Vn'' \<mapsto> PFloat 110], [''idx'' \<mapsto> PStr ''b'']]"
  let ?idxs = "[PInt 7, PStr ''b'']"
  have h1: "map (\<lambda>kwargs. kwargs ''idx'') ?kws = map Some ?idxs" by simp
  have h2: "distinct (map dict_key ?idxs)" by simp
  have h3: "PNone \<notin> set ?idxs" by simp
  from add_devices_idx2uid_bijection[OF h1 h2 h3, of "\<lambda>name val. val" "[''Vn'']"]
  obtain m where m: "add_devices (\<lambda>name val. val) (new_model_data [''Vn'']) ?kws = Inr m"
    "md_params m = odict_keys [''idx'', ''u'', ''name'', ''Vn'']"
    "md_n m = length ?idxs"
    "\<forall>i < length ?idxs.
         idx2uid m (IdxOne (?idxs ! i)) = Inr (UidOne i)
         \<and> (\<forall>src \<in> set (md_params m).
               get m src (IdxOne (?idxs ! i)) ''v'' = Inr (GetOne (stored_v m src ! i))
               \<and> stored_v m src ! i = device_value (?kws ! i) src)"
    by blast
  have ps: "set (md_params m) = {''idx'', ''u'', ''name'', ''Vn''}"
    unfolding m(2) set_odict_keys by simp
  from m(4) have i0: "idx2uid m (IdxOne (PInt 7)) = Inr (UidOne 0)"
    and g0: "\<forall>src \<in> set (md_params m).
               get m src (IdxOne (PInt 7)) ''v'' = Inr (GetOne (stored_v m src ! 0))
               \<and> stored_v m src ! 0 = device_value (?kws ! 0) src"
    by force+
  from m(4) have i1: "idx2uid m (IdxOne (PStr ''b'')) = Inr (UidOne 1)"
    and g1: "\<forall>src \<in> set (md_params m).
               get m src (IdxOne (PStr ''b'')) ''v'' = Inr (GetOne (stored_v m src ! 1))
               \<and> stored_v m src ! 1 = device_value (?kws ! 1) src"
    by force+
  have "get m ''Vn'' (IdxOne (PInt 7)) ''v'' = Inr (GetOne (PFloat 110))"
    using g0 ps by (simp add: device_value_def name_default_def kwargs_pop_def)
  moreover have "get m ''name'' (IdxOne (PStr ''b'')) ''v'' = Inr (GetOne (PStr ''b''))"
    using g1 ps by (simp add: device_value_def name_default_def kwargs_pop_def)
  ultimately show ?thesis using m(1) m(3) i0 i1 by auto
qed

section \<open>Altering a parameter: Model.set, Model.alter (core/model.py)\<close>

text \<open>
  \<open>Model.alter\<close> works on the arrays of a numeric parameter of a model that has been set
  up: \<open>vin\<close>, \<open>v\<close> and \<open>pu_coeff\<close> are then one-dimensional numpy \<open>float64\<close> arrays, and so
  are the arrays of the variables. In this section the container is a
  \<open>double model_data\<close> and every attribute list is such an array; an attribute that is
  still a Python list or \<open>None\<close> is outside this model. The value handed to \<open>set\<close> and
  \<open>alter\<close> is a float (an int is stored as the float of the same value); array-like
  values are not modelled.

  \<open>arr[uid] = value\<close> on an array, for the three results of \<open>idx2uid\<close>: an int writes one
  position; a list of ints writes each of its positions (none when the list is empty);
  \<open>None\<close> is numpy's new axis, so that \<open>arr[None]\<close> is the whole array seen as one row and
  the scalar is written at every position. A position past the end is an IndexError,
  raised before anything is written.
\<close>

fun written :: "double list \<Rightarrow> uid_res \<Rightarrow> double \<Rightarrow> double list" where
  "written arr (UidOne u) x = arr[u := x]"
| "written arr (UidMany us) x = fold (\<lambda>u a. a[u := x]) us arr"
| "written arr UidNone x = map (\<lambda>y. x) arr"

fun uid_positions :: "uid_res \<Rightarrow> nat \<Rightarrow> nat set" where
  "uid_positions (UidOne u) n = {u}"
| "uid_positions (UidMany us) n = set us"
| "uid_positions UidNone n = {..<n}"

fun in_bounds :: "uid_res \<Rightarrow> nat \<Rightarrow> bool" where
  "in_bounds (UidOne u) n \<longleftrightarrow> u < n"
| "in_bounds (UidMany us) n \<longleftrightarrow> list_all (\<lambda>u. u < n) us"
| "in_bounds UidNone n \<longleftrightarrow> True"

definition np_setitem :: "double list \<Rightarrow> uid_res \<Rightarrow> double \<Rightarrow> pyexn + double list" where
  "np_setitem arr uid x = (if in_bounds uid (length arr) then Inr (written arr uid x) else Inl IndexError)"

text \<open>
  \<open>Model.set\<close> performs \<open>self.__dict__[src].__dict__[attr][uid] = value\<close> with
  \<open>uid = self.idx2uid(idx)\<close>, which is evaluated first: an unregistered idx is a KeyError,
  then a missing \<open>src\<close> or \<open>attr\<close> is a KeyError. The model returns the updated container;
  no two attributes share an array.
\<close>

definition set_m :: "double model_data \<Rightarrow> string \<Rightarrow> idx_arg \<Rightarrow> string \<Rightarrow> double \<Rightarrow>
    pyexn + double model_data" where
  "set_m m src idx attr val =
     (case idx2uid m idx of
        Inl e \<Rightarrow> Inl e
      | Inr uid \<Rightarrow>
          (case md_dict m src of
             None \<Rightarrow> Inl KeyError
           | Some obj \<Rightarrow>
               (case obj attr of
                  None \<Rightarrow> Inl KeyError
                | Some arr \<Rightarrow>
                    (case np_setitem arr uid val of
                       Inl e \<Rightarrow> Inl e
                     | Inr arr' \<Rightarrow> Inr (m\<lparr>md_dict := (md_dict m)(src \<mapsto> obj(attr \<mapsto> arr'))\<rparr>)))))"

text \<open>
  \<open>Model.alter\<close> calls \<open>set(src, idx, 'vin', value)\<close> and then executes
  \<open>self.__dict__[src].v[:] = self.__dict__[src].vin * self.__dict__[src].pu_coeff\<close>: the
  right-hand side is evaluated first (\<open>vin\<close>, \<open>pu_coeff\<close>, their product), then \<open>v\<close> is
  looked up and assigned through the slice. The product of two one-dimensional arrays
  is elementwise, each entry the rounded float product; numpy broadcasts an array of
  length one and raises a ValueError for any other pair of different lengths, and the
  slice assignment \<open>v[:] = ...\<close> does the same.
\<close>

definition np_mul :: "double list \<Rightarrow> double list \<Rightarrow> pyexn + double list" where
  "np_mul xs ys =
     (if length xs = length ys then Inr (map2 d_mul xs ys)
      else if length xs = 1 then Inr (map (\<lambda>y. d_mul (xs ! 0) y) ys)
      else if length ys = 1 then Inr (map (\<lambda>x. d_mul x (ys ! 0)) xs)
      else Inl ValueError)"

definition np_assign_all :: "'a list \<Rightarrow> 'a list \<Rightarrow> pyexn + 'a list" where
  "np_assign_all target new =
     (if length new = length target then Inr new
      else if length new = 1 then Inr (replicate (length target) (new ! 0))
      else Inl ValueError)"

definition getattr_obj :: "'a pyobj \<Rightarrow> string \<Rightarrow> pyexn + 'a list" where
  "getattr_obj obj attr = (case obj attr of None \<Rightarrow> Inl AttributeError | Some xs \<Rightarrow> Inr xs)"

definition alter :: "double model_data \<Rightarrow> string \<Rightarrow> idx_arg \<Rightarrow> double \<Rightarrow> pyexn + double model_data" where
  "alter m src idx val =
     (case set_m m src idx ''vin'' val of
        Inl e \<Rightarrow> Inl e
      | Inr m1 \<Rightarrow>
          (case md_dict m1 src of
             None \<Rightarrow> Inl KeyError
           | Some obj \<Rightarrow>
               (case getattr_obj obj ''vin'' of
                  Inl e \<Rightarrow> Inl e
                | Inr vin \<Rightarrow>
               (case getattr_obj obj ''pu_coeff'' of
                  Inl e \<Rightarrow> Inl e
                | Inr pu_coeff \<Rightarrow>
               (case np_mul vin pu_coeff of
                  Inl e \<Rightarrow> Inl e
                | Inr new \<Rightarrow>
               (case getattr_obj obj ''v'' of
                  Inl e \<Rightarrow> Inl e
                | Inr v \<Rightarrow>
               (case np_assign_all v new of
                  Inl e \<Rightarrow> Inl e
                | Inr v' \<Rightarrow> Inr (m1\<lparr>md_dict := (md_dict m1)(src \<mapsto> obj(''v'' \<mapsto> v'))\<rparr>))))))))"

text \<open>
  A model with two devices, registered under 7 and \<open>'b'\<close>, and two numeric parameters.
  The per-unit coefficient of the first device of \<open>Vn\<close> is the float 0.1, and the working
  values of \<open>Vn\<close> are stale.
\<close>

definition tenth :: double where
  "tenth = Finite (3602879701896397 / 36028797018963968)"

definition vn_example :: "double pyobj" where
  "vn_example = [''v'' \<mapsto> [Finite 1, Finite 2], ''vin'' \<mapsto> [Finite 110, Finite 220],
                 ''pu_coeff'' \<mapsto> [tenth, Finite (1 / 2)]]"

definition p0_example :: "double pyobj" where
  "p0_example = [''v'' \<mapsto> [Finite 3, Finite 4], ''vin'' \<mapsto> [Finite 3, Finite 4],
                 ''pu_coeff'' \<mapsto> [Finite 1, Finite 1]]"

definition alter_example :: "double model_data" where
  "alter_example =
     \<lparr>md_params = [''idx'', ''u'', ''name'', ''Vn'', ''p0''], md_n = 2,
      md_uid = [PFloat 7 \<mapsto> 0, PStr ''b'' \<mapsto> 1],
      md_dict = [''Vn'' \<mapsto> vn_example, ''p0'' \<mapsto> p0_example]\<rparr>"

text \<open>
  The raw inputs and the working values of a parameter, read from a container.
\<close>

definition param_arrays :: "double model_data \<Rightarrow> string \<Rightarrow> (double list option \<times> double list option) option" where
  "param_arrays m src = (case md_dict m src of None \<Rightarrow> None | Some obj \<Rightarrow> Some (obj ''vin'', obj ''v''))"

lemma length_fold_update: "length (fold (\<lambda>u a. a[u := x]) us arr) = length arr"
  by (induction us arbitrary: arr) simp_all

lemma nth_fold_update:
  "j < length arr \<Longrightarrow> fold (\<lambda>u a. a[u := x]) us arr ! j = (if j \<in> set us then x else arr ! j)"
proof (induction us arbitrary: arr)
  case Nil
  then show ?case by simp
next
  case (Cons u us)
  have "j < length (arr[u := x])" using Cons.prems by simp
  from Cons.IH[OF this] show ?case
    using Cons.prems by (auto simp: nth_list_update)
qed

lemma length_written: "length (written arr uid x) = length arr"
  by (cases uid) (simp_all add: length_fold_update)

lemma nth_written:
  assumes "j < length arr"
  shows "written arr uid x ! j = (if j \<in> uid_positions uid (length arr) then x else arr ! j)"
  using assms by (cases uid) (simp_all add: nth_fold_update nth_list_update)

lemma example_products:
  "d_mul (Finite 3) tenth = Finite (1351079888211149 / 4503599627370496)"
  "d_mul (Finite 220) (Finite (1 / 2)) = Finite 110"
  "d_mul (Finite 3) (Finite (1 / 2)) = Finite (3 / 2)"
  "d_mul (Finite 100) tenth = Finite 10"
  "d_mul (Finite 100) (Finite (1 / 2)) = Finite 50"
  unfolding tenth_def by code_simp+

text \<open>
  C10 (amended). For a numeric parameter \<open>src\<close> whose arrays \<open>vin\<close>, \<open>v\<close> and \<open>pu_coeff\<close> have one
  entry per device, and an idx that \<open>idx2uid\<close> resolves to positions of these arrays
  (\<open>uid_positions\<close>: the position of a registered scalar idx, the positions of an
  array-like of registered idx values; \<open>None\<close> resolves to \<open>None\<close>, which addresses every
  position): \<open>alter(src, idx, value)\<close> succeeds; the new \<open>vin\<close> holds \<open>value\<close> at the addressed
  positions and the old raw input everywhere else; the new \<open>v\<close> is, at every position,
  the float product of the new \<open>vin\<close> and \<open>pu_coeff\<close>, whatever \<open>v\<close> held before, so the
  devices that are not addressed are refreshed from their unchanged raw inputs; the other
  attributes of \<open>src\<close>, every other attribute of the model (parameter or variable), the
  index map, the device count and the parameter list are unchanged.
\<close>

theorem alter_frame:
  assumes "idx2uid m idx = Inr uid"
      and "in_bounds uid (length vin)"
      and "md_dict m src = Some obj"
      and "obj ''vin'' = Some vin" and "obj ''v'' = Some v" and "obj ''pu_coeff'' = Some pu_coeff"
      and "length v = length vin" and "length pu_coeff = length vin"
  shows "\<exists>m' obj' vin' v'. alter m src idx val = Inr m'
           \<and> md_dict m' src = Some obj'
           \<and> obj' ''vin'' = Some vin' \<and> length vin' = length vin
           \<and> (\<forall>j < length vin.
                 vin' ! j = (if j \<in> uid_positions uid (length vin) then val else vin ! j))
           \<and> obj' ''v'' = Some v' \<and> length v' = length vin
           \<and> (\<forall>j < length vin. v' ! j = d_mul (vin' ! j) (pu_coeff ! j))
           \<and> (\<forall>attr. attr \<noteq> ''vin'' \<and> attr \<noteq> ''v'' \<longrightarrow> obj' attr = obj attr)
           \<and> (\<forall>other. other \<noteq> src \<longrightarrow> md_dict m' other = md_dict m other)
           \<and> md_uid m' = md_uid m \<and> md_n m' = md_n m \<and> md_params m' = md_params m"
proof -
  let ?vin = "written vin uid val"
  let ?obj1 = "obj(''vin'' \<mapsto> ?vin)"
  let ?m1 = "m\<lparr>md_dict := (md_dict m)(src \<mapsto> ?obj1)\<rparr>"
  have s: "set_m m src idx ''vin'' val = Inr ?m1"
    using assms(1,2,3,4) by (simp add: set_m_def np_setitem_def)
  let ?v = "map2 d_mul ?vin pu_coeff"
  let ?obj' = "?obj1(''v'' \<mapsto> ?v)"
  let ?m' = "?m1\<lparr>md_dict := (md_dict ?m1)(src \<mapsto> ?obj')\<rparr>"
  have a: "alter m src idx val = Inr ?m'"
    using s assms(5,6,7,8)
    by (simp add: alter_def getattr_obj_def np_mul_def np_assign_all_def length_written)
  have "md_dict ?m' src = Some ?obj'" by simp
  moreover have "?obj' ''vin'' = Some ?vin \<and> length ?vin = length vin"
    by (simp add: length_written)
  moreover have "\<forall>j < length vin.
      ?vin ! j = (if j \<in> uid_positions uid (length vin) then val else vin ! j)"
    by (simp add: nth_written)
  moreover have "?obj' ''v'' = Some ?v \<and> length ?v = length vin"
    using assms(8) by (simp add: length_written)
  moreover have "\<forall>j < length vin. ?v ! j = d_mul (?vin ! j) (pu_coeff ! j)"
    using assms(8) by (simp add: length_written)
  moreover have "\<forall>attr. attr \<noteq> ''vin'' \<and> attr \<noteq> ''v'' \<longrightarrow> ?obj' attr = obj attr" by simp
  moreover have "\<forall>other. other \<noteq> src \<longrightarrow> md_dict ?m' other = md_dict m other" by simp
  moreover have "md_uid ?m' = md_uid m \<and> md_n ?m' = md_n m \<and> md_params ?m' = md_params m" by simp
  ultimately show ?thesis using a by blast
qed

lemma list2_eq: "length xs = 2 \<Longrightarrow> xs ! 0 = a \<Longrightarrow> xs ! 1 = b \<Longrightarrow> xs = [a, b]"
  by (cases xs; cases "tl xs") auto

theorem alter_frame_witness:
  "(\<exists>m' obj'. alter alter_example ''Vn'' (IdxOne (PInt 7)) (Finite 3) = Inr m'
      \<and> md_dict m' ''Vn'' = Some obj'
      \<and> obj' ''vin'' = Some [Finite 3, Finite 220]
      \<and> obj' ''v'' = Some [Finite (1351079888211149 / 4503599627370496), Finite 110]
      \<and> obj' ''pu_coeff'' = Some [tenth, Finite (1 / 2)]
      \<and> md_dict m' ''p0'' = Some p0_example)
   \<and> (\<exists>m' obj'. alter alter_example ''Vn'' (IdxMany [PStr ''b'', PInt 7]) (Finite 100) = Inr m'
      \<and> md_dict m' ''Vn'' = Some obj'
      \<and> obj' ''vin'' = Some [Finite 100, Finite 100]
      \<and> obj' ''v'' = Some [Finite 10, Finite 50]
      \<and> md_dict m' ''p0'' = Some p0_example)"
proof -
  let ?vin = "[Finite 110, Finite 220]"
  have h: "md_dict alter_example ''Vn'' = Some vn_example"
    "vn_example ''vin'' = Some ?vin" "vn_example ''v'' = Some [Finite 1, Finite 2]"
    "vn_example ''pu_coeff'' = Some [tenth, Finite (1 / 2)]"
    "length [Finite 1, Finite 2] = length ?vin" "length [tenth, Finite (1 / 2)] = length ?vin"
    by (simp_all add: alter_example_def vn_example_def)
  have p0: "md_dict alter_example ''p0'' = Some p0_example"
    by (simp add: alter_example_def)
  have u1: "idx2uid alter_example (IdxOne (PInt 7)) = Inr (UidOne 0)" "in_bounds (UidOne 0) (length ?vin)"
    by (simp_all add: alter_example_def)
  have u2: "idx2uid alter_example (IdxMany [PStr ''b'', PInt 7]) = Inr (UidMany [1, 0])"
    "in_bounds (UidMany [1, 0]) (length ?vin)"
    by (simp_all add: alter_example_def)
  have first: "\<exists>m' obj'. alter alter_example ''Vn'' (IdxOne (PInt 7)) (Finite 3) = Inr m'
      \<and> md_dict m' ''Vn'' = Some obj'
      \<and> obj' ''vin'' = Some [Finite 3, Finite 220]
      \<and> obj' ''v'' = Some [Finite (1351079888211149 / 4503599627370496), Finite 110]
      \<and> obj' ''pu_coeff'' = Some [tenth, Finite (1 / 2)]
      \<and> md_dict m' ''p0'' = Some p0_example"
    using alter_frame[OF u1 h(1,2,3,4,5,6), of "Finite 3"]
    apply (elim exE conjE)
    subgoal for m' obj' vin' v'
      apply (rule exI[of _ m'], rule exI[of _ obj'])
      apply (subgoal_tac "vin' = [Finite 3, Finite 220]")
       apply (subgoal_tac "v' = [Finite (1351079888211149 / 4503599627370496), Finite 110]")
        apply (simp add: h p0)
       apply (rule list2_eq)
         apply simp
        apply (simp add: example_products del: d_mul.simps)
       apply (simp add: example_products del: d_mul.simps)
      apply (rule list2_eq)
        apply simp
       apply simp
      apply simp
      done
    done
  have second: "\<exists>m' obj'. alter alter_example ''Vn'' (IdxMany [PStr ''b'', PInt 7]) (Finite 100) = Inr m'
      \<and> md_dict m' ''Vn'' = Some obj'
      \<and> obj' ''vin'' = Some [Finite 100, Finite 100]
      \<and> obj' ''v'' = Some [Finite 10, Finite 50]
      \<and> md_dict m' ''p0'' = Some p0_example"
    using alter_frame[OF u2 h(1,2,3,4,5,6), of "Finite 100"]
    apply (elim exE conjE)
    subgoal for m' obj' vin' v'
      apply (rule exI[of _ m'], rule exI[of _ obj'])
      apply (subgoal_tac "vin' = [Finite 100, Finite 100]")
       apply (subgoal_tac "v' = [Finite 10, Finite 50]")
        apply (simp add: h p0)
       apply (rule list2_eq)
         apply simp
        apply (simp add: example_products del: d_mul.simps)
       apply (simp add: example_products del: d_mul.simps)
      apply (rule list2_eq)
        apply simp
       apply simp
      apply simp
      done
    done
  show ?thesis using first second by (rule conjI)
qed

text \<open>
  With \<open>idx = None\<close>, \<open>idx2uid\<close> answers \<open>None\<close> and \<open>vin[None] = value\<close> overwrites the raw
  input of both devices of the example, which held 110 and 220.
\<close>

theorem alter_none_overwrites_every_raw_input:
  "param_arrays alter_example ''Vn'' = Some (Some [Finite 110, Finite 220], Some [Finite 1, Finite 2])
   \<and> (case alter alter_example ''Vn'' (IdxOne PNone) (Finite 100) of
        Inl e \<Rightarrow> None
      | Inr m' \<Rightarrow> param_arrays m' ''Vn'')
     = Some (Some [Finite 100, Finite 100], Some [Finite 10, Finite 50])"
  by (simp add: param_arrays_def alter_def set_m_def np_setitem_def getattr_obj_def np_mul_def
      np_assign_all_def alter_example_def vn_example_def example_products del: d_mul.simps)

section \<open>Symbolic processing: symbols and equations (core/model.py, SymProcessor)\<close>

text \<open>
  An equation, initializer or service string as \<open>sympify(string, locals=inputs_dict)\<close>
  returns it: an expression tree. Parsing and sympy's own rewriting are library code and
  are not modelled; a \<open>Sym\<close> leaf is a name of the string that sympy does not resolve
  itself (a known symbol of \<open>inputs_dict\<close>, or a fresh symbol for any other name), \<open>Fn\<close> is
  the application of a sympy function. \<open>free_symbols\<close> is a Python set; the model lists
  it from left to right.
\<close>

datatype expr =
    Num real
  | Sym string
  | Add expr expr
  | Mul expr expr
  | Pow expr expr
  | Fn string expr

fun free_symbols :: "expr \<Rightarrow> string list" where
  "free_symbols (Num c) = []"
| "free_symbols (Sym s) = [s]"
| "free_symbols (Add a b) = free_symbols a @ free_symbols b"
| "free_symbols (Mul a b) = free_symbols a @ free_symbols b"
| "free_symbols (Pow a b) = free_symbols a @ free_symbols b"
| "free_symbols (Fn f a) = free_symbols a"

text \<open>
  What the symbolic processor reads of a variable: the code letters of its class
  (\<open>e_code\<close> and \<open>v_code\<close>, class attributes of andes/core/var.py, which is not among the
  sources, so they are fields here), its strings \<open>e_str\<close>, \<open>v_str\<close> and \<open>v_iter\<close> in parsed
  form (\<open>None\<close> as in the source) and \<open>diag_eps\<close>.

  What it reads of a model: the class name, the registries of \<open>ModelData\<close> and \<open>Model\<close>
  (OrderedDicts, as lists of items in insertion order; a registry whose values are not
  read is the list of its keys) and the keys of \<open>config.as_dict()\<close>. Every object is
  registered under its name (\<open>_check_attribute\<close> sets the name to the key), so
  \<open>get_names()\<close> of a parameter, service or variable is its key; a discrete component
  carries the names of its flags; a service carries its \<open>v_str\<close>.
\<close>

record var =
  e_code :: string
  v_code :: string
  e_str :: "expr option"
  v_str :: "expr option"
  v_iter :: "expr option"
  diag_eps :: real

record model =
  class_name :: string
  params :: "string list"
  num_params :: "string list"
  services :: "(string \<times> expr option) list"
  services_ext :: "string list"
  services_ops :: "string list"
  services_ref :: "string list"
  services_fnd :: "string list"
  discrete :: "(string \<times> string list) list"
  states :: "(string \<times> var) list"
  states_ext :: "(string \<times> var) list"
  algebs :: "(string \<times> var) list"
  algebs_ext :: "(string \<times> var) list"
  config :: "string list"

text \<open>
  \<open>d[k] = v\<close> on an OrderedDict replaces the value of an existing key where it stands
  and appends a new key; \<open>OrderedDict(items)\<close> assigns the items in order.
\<close>

fun odict_set :: "(string \<times> 'a) list \<Rightarrow> string \<Rightarrow> 'a \<Rightarrow> (string \<times> 'a) list" where
  "odict_set [] k v = [(k, v)]"
| "odict_set ((k', v') # d) k v = (if k' = k then (k, v) # d else (k', v') # odict_set d k v)"

definition odict :: "(string \<times> 'a) list \<Rightarrow> (string \<times> 'a) list" where
  "odict items = foldl (\<lambda>d (k, v). odict_set d k v) [] items"

text \<open>
  The cached views \<open>_all_vars\<close>, \<open>_states_and_ext\<close>, \<open>_algebs_and_ext\<close>, \<open>_all_vars_names\<close>
  and \<open>_all_params_names\<close> (\<open>_all_params\<close> joins the numeric parameters, the three kinds
  of services that have values, and the discrete components).
\<close>

definition all_vars :: "model \<Rightarrow> (string \<times> var) list" where
  "all_vars m = odict (states m @ states_ext m @ algebs m @ algebs_ext m)"

definition states_and_ext :: "model \<Rightarrow> (string \<times> var) list" where
  "states_and_ext m = odict (states m @ states_ext m)"

definition algebs_and_ext :: "model \<Rightarrow> (string \<times> var) list" where
  "algebs_and_ext m = odict (algebs m @ algebs_ext m)"

definition all_vars_names :: "model \<Rightarrow> string list" where
  "all_vars_names m = map fst (all_vars m)"

definition all_params_names :: "model \<Rightarrow> string list" where
  "all_params_names m =
     concat (map snd (odict (map (\<lambda>k. (k, [k])) (num_params m)
                             @ map (\<lambda>(k, e). (k, [k])) (services m)
                             @ map (\<lambda>k. (k, [k])) (services_ext m)
                             @ map (\<lambda>k. (k, [k])) (services_ops m)
                             @ discrete m)))"

text \<open>
  \<open>generate_symbols\<close> on a new processor: the keys of \<open>inputs_dict\<close> are assigned from the
  parameter names, the variable names, the config keys and last \<open>'dae_t'\<close>; the value of
  a key is the sympy symbol of that name, so the keys stand for the symbols. \<open>vars_dict\<close>
  holds the variable names.
\<close>

definition inputs_dict :: "model \<Rightarrow> string list" where
  "inputs_dict m =
     map fst (odict (map (\<lambda>k. (k, ())) (all_params_names m @ all_vars_names m @ config m @ [''dae_t''])))"

definition vars_dict :: "model \<Rightarrow> string list" where
  "vars_dict m = map fst (odict (map (\<lambda>k. (k, ())) (all_vars_names m)))"

text \<open>
  \<open>_check_expr_symbols\<close> raises
  \<open>ValueError(f'{class_name} expression "{expr}" contains unknown symbol "{item}"')\<close> for
  the first free symbol it meets that is no value of \<open>inputs_dict\<close>; the error value
  carries the three parts of the message.
\<close>

datatype sym_error = UnknownSymbol string expr string

definition check_expr_symbols :: "string \<Rightarrow> string list \<Rightarrow> expr \<Rightarrow> sym_error + unit" where
  "check_expr_symbols cname inputs e =
     (case filter (\<lambda>item. item \<notin> set inputs) (free_symbols e) of
        [] \<Rightarrow> Inr ()
      | item # rest \<Rightarrow> Inl (UnknownSymbol cname e item))"

text \<open>
  \<open>generate_equations\<close>: for the differential and then the algebraic variables, \<open>0\<close> for
  a variable without \<open>e_str\<close>, else the checked expression; then the services, in
  declaration order. \<open>generate_init\<close>: for every variable, \<open>v_str\<close> and then \<open>v_iter\<close> are
  checked. The compiled callables (\<open>lambdify\<close>) are represented by their expressions.
\<close>

fun gen_eqs :: "string \<Rightarrow> string list \<Rightarrow> (string \<times> var) list \<Rightarrow> sym_error + expr list" where
  "gen_eqs cname inputs [] = Inr []"
| "gen_eqs cname inputs ((name, instance) # rest) =
     (case e_str instance of
        None \<Rightarrow> (case gen_eqs cname inputs rest of Inl err \<Rightarrow> Inl err | Inr dest \<Rightarrow> Inr (Num 0 # dest))
      | Some e \<Rightarrow>
          (case check_expr_symbols cname inputs e of
             Inl err \<Rightarrow> Inl err
           | Inr u \<Rightarrow> (case gen_eqs cname inputs rest of Inl err \<Rightarrow> Inl err | Inr dest \<Rightarrow> Inr (e # dest))))"

fun gen_services :: "string \<Rightarrow> string list \<Rightarrow> (string \<times> expr option) list \<Rightarrow> sym_error + (string \<times> expr) list" where
  "gen_services cname inputs [] = Inr []"
| "gen_services cname inputs ((name, vstr) # rest) =
     (case vstr of
        None \<Rightarrow> (case gen_services cname inputs rest of Inl err \<Rightarrow> Inl err | Inr s \<Rightarrow> Inr ((name, Num 0) # s))
      | Some e \<Rightarrow>
          (case check_expr_symbols cname inputs e of
             Inl err \<Rightarrow> Inl err
           | Inr u \<Rightarrow> (case gen_services cname inputs rest of Inl err \<Rightarrow> Inl err | Inr s \<Rightarrow> Inr ((name, e) # s))))"

record equations =
  f_list :: "expr list"
  g_list :: "expr list"
  s_syms :: "(string \<times> expr) list"

definition generate_equations :: "model \<Rightarrow> sym_error + equations" where
  "generate_equations m =
     (case gen_eqs (class_name m) (inputs_dict m) (states_and_ext m) of
        Inl err \<Rightarrow> Inl err
      | Inr fl \<Rightarrow>
     (case gen_eqs (class_name m) (inputs_dict m) (algebs_and_ext m) of
        Inl err \<Rightarrow> Inl err
      | Inr gl \<Rightarrow>
     (case gen_services (class_name m) (inputs_dict m) (services m) of
        Inl err \<Rightarrow> Inl err
      | Inr ss \<Rightarrow> Inr \<lparr>f_list = fl, g_list = gl, s_syms = ss\<rparr>)))"

fun gen_inits :: "string \<Rightarrow> string list \<Rightarrow> (string \<times> var) list \<Rightarrow> sym_error + (string \<times> expr) list" where
  "gen_inits cname inputs [] = Inr []"
| "gen_inits cname inputs ((name, instance) # rest) =
     (case (case v_str instance of
              None \<Rightarrow> Inr []
            | Some e \<Rightarrow> (case check_expr_symbols cname inputs e of Inl err \<Rightarrow> Inl err | Inr u \<Rightarrow> Inr [(name, e)])) of
        Inl err \<Rightarrow> Inl err
      | Inr lam \<Rightarrow>
          (case (case v_iter instance of
                   None \<Rightarrow> Inr ()
                 | Some e \<Rightarrow> check_expr_symbols cname inputs e) of
             Inl err \<Rightarrow> Inl err
           | Inr u \<Rightarrow> (case gen_inits cname inputs rest of Inl err \<Rightarrow> Inl err | Inr l \<Rightarrow> Inr (lam @ l))))"

definition generate_init :: "model \<Rightarrow> sym_error + (string \<times> expr) list" where
  "generate_init m = gen_inits (class_name m) (inputs_dict m) (all_vars m)"

text \<open>
  The set of names claim C1 gives, in the words of the specification: all parameter
  names, all variable names, all service names (of every service registry), all config
  option names and the time symbol. The expressions of a model that are checked: those of
  \<open>e_str\<close> and of the services (\<open>generate_equations\<close>), and those of \<open>v_str\<close> and \<open>v_iter\<close>
  (\<open>generate_init\<close>).
\<close>

definition spec_symbols :: "model \<Rightarrow> string set" where
  "spec_symbols m =
     set (params m) \<union> set (all_vars_names m)
     \<union> (fst ` set (services m) \<union> set (services_ext m) \<union> set (services_ops m)
        \<union> set (services_ref m) \<union> set (services_fnd m))
     \<union> set (config m) \<union> {''dae_t''}"

fun e_exprs :: "(string \<times> var) list \<Rightarrow> expr list" where
  "e_exprs [] = []"
| "e_exprs ((name, inst) # rest) =
     (case e_str inst of None \<Rightarrow> e_exprs rest | Some e \<Rightarrow> e # e_exprs rest)"

fun s_exprs :: "(string \<times> expr option) list \<Rightarrow> expr list" where
  "s_exprs [] = []"
| "s_exprs ((name, vstr) # rest) =
     (case vstr of None \<Rightarrow> s_exprs rest | Some e \<Rightarrow> e # s_exprs rest)"

fun v_exprs :: "(string \<times> var) list \<Rightarrow> expr list" where
  "v_exprs [] = []"
| "v_exprs ((name, inst) # rest) =
     (case v_str inst of None \<Rightarrow> [] | Some e \<Rightarrow> [e])
     @ (case v_iter inst of None \<Rightarrow> [] | Some e \<Rightarrow> [e])
     @ v_exprs rest"

definition equation_exprs :: "model \<Rightarrow> expr list" where
  "equation_exprs m =
     e_exprs (states_and_ext m) @ e_exprs (algebs_and_ext m) @ s_exprs (services m)"

definition init_exprs :: "model \<Rightarrow> expr list" where
  "init_exprs m = v_exprs (all_vars m)"


text \<open>
  The PQ load of the class documentation of \<open>Model\<close>: external algebraic variables
  \<open>a\<close> and \<open>v\<close>, a limiter \<open>vcmp\<close> with the flags \<open>vcmp_zi\<close>, \<open>vcmp_zl\<close> and \<open>vcmp_zu\<close>, the config
  option \<open>pq2z\<close>, and an equation string that uses a flag.
\<close>

definition pq_example :: model where
  "pq_example =
     \<lparr>class_name = ''PQ'',
      params = [''idx'', ''u'', ''name'', ''bus'', ''p0'', ''vmin'', ''vmax''],
      num_params = [''u'', ''p0'', ''vmin'', ''vmax''],
      services = [], services_ext = [], services_ops = [], services_ref = [], services_fnd = [],
      discrete = [(''vcmp'', [''vcmp_zi'', ''vcmp_zl'', ''vcmp_zu''])],
      states = [], states_ext = [], algebs = [],
      algebs_ext =
        [(''a'', \<lparr>e_code = ''g'', v_code = ''y'',
                  e_str = Some (Mul (Sym ''u'') (Mul (Sym ''p0'') (Sym ''vcmp_zi''))),
                  v_str = None, v_iter = None, diag_eps = 0\<rparr>),
         (''v'', \<lparr>e_code = ''g'', v_code = ''y'', e_str = None,
                  v_str = None, v_iter = None, diag_eps = 0\<rparr>)],
      config = [''pq2z'']\<rparr>"


subsection \<open>The visible symbols and the unknown-symbol check\<close>

lemma keys_odict_set: "fst ` set (odict_set d k v) = insert k (fst ` set d)"
  by (induction d k v rule: odict_set.induct) auto

lemma keys_foldl_odict_set:
  "fst ` set (foldl (\<lambda>d (k, v). odict_set d k v) acc items) = fst ` set acc \<union> fst ` set items"
proof (induction items arbitrary: acc)
  case Nil
  then show ?case by simp
next
  case (Cons p items)
  obtain k v where p: "p = (k, v)" by (cases p)
  have "fst ` set (foldl (\<lambda>d (k, v). odict_set d k v) (odict_set acc k v) items)
        = fst ` set (odict_set acc k v) \<union> fst ` set items"
    by (rule Cons.IH)
  then show ?case unfolding p by (simp add: keys_odict_set)
qed

lemma keys_odict: "fst ` set (odict items) = fst ` set items"
  by (simp add: odict_def keys_foldl_odict_set)

lemma odict_set_fresh: "k \<notin> fst ` set d \<Longrightarrow> odict_set d k v = d @ [(k, v)]"
  by (induction d k v rule: odict_set.induct) auto

lemma foldl_odict_set_distinct:
  "distinct (map fst (acc @ items)) \<Longrightarrow>
   foldl (\<lambda>d (k, v). odict_set d k v) acc items = acc @ items"
proof (induction items arbitrary: acc)
  case Nil
  then show ?case by simp
next
  case (Cons p items)
  obtain k v where p: "p = (k, v)" by (cases p)
  from Cons.prems p have fresh: "k \<notin> fst ` set acc" by auto
  from Cons.prems p have d: "distinct (map fst ((acc @ [(k, v)]) @ items))" by auto
  show ?case
    using Cons.IH[OF d] fresh p by (simp add: odict_set_fresh)
qed

lemma odict_distinct: "distinct (map fst items) \<Longrightarrow> odict items = items"
  using foldl_odict_set_distinct[of "[]" items] by (simp add: odict_def)

lemma check_expr_symbols_ok:
  "check_expr_symbols cname inputs e = Inr () \<longleftrightarrow> set (free_symbols e) \<subseteq> set inputs"
proof -
  have "check_expr_symbols cname inputs e = Inr () \<longleftrightarrow>
        filter (\<lambda>item. item \<notin> set inputs) (free_symbols e) = []"
    by (simp add: check_expr_symbols_def split: list.splits)
  also have "\<dots> \<longleftrightarrow> set (free_symbols e) \<subseteq> set inputs"
    by (auto simp: filter_empty_conv)
  finally show ?thesis .
qed

lemma check_expr_symbols_err:
  assumes "check_expr_symbols cname inputs e = Inl err"
  shows "\<exists>s. err = UnknownSymbol cname e s \<and> s \<in> set (free_symbols e) \<and> s \<notin> set inputs"
proof -
  from assms obtain s rest where f: "filter (\<lambda>item. item \<notin> set inputs) (free_symbols e) = s # rest"
    and err: "err = UnknownSymbol cname e s"
    by (auto simp: check_expr_symbols_def split: list.splits)
  have "s \<in> set (filter (\<lambda>item. item \<notin> set inputs) (free_symbols e))"
    unfolding f by simp
  then show ?thesis using err by auto
qed

lemma check_expr_symbols_cases:
  "(\<exists>s. check_expr_symbols cname inputs e = Inl (UnknownSymbol cname e s)
        \<and> s \<in> set (free_symbols e) \<and> s \<notin> set inputs)
   \<or> (check_expr_symbols cname inputs e = Inr () \<and> set (free_symbols e) \<subseteq> set inputs)"
proof (cases "check_expr_symbols cname inputs e")
  case (Inl err)
  then show ?thesis using check_expr_symbols_err[OF Inl] by auto
next
  case (Inr u)
  then show ?thesis using check_expr_symbols_ok[of cname inputs e] by simp
qed

lemma gen_eqs_ok:
  "(\<exists>dest. gen_eqs cname inputs xs = Inr dest) \<longleftrightarrow>
   (\<forall>e \<in> set (e_exprs xs). set (free_symbols e) \<subseteq> set inputs)"
proof (induction xs)
  case Nil
  then show ?case by simp
next
  case (Cons p xs)
  obtain name inst where p: "p = (name, inst)" by (cases p)
  show ?case
  proof (cases "e_str inst")
    case None
    then show ?thesis using Cons.IH p by (auto split: sum.splits)
  next
    case (Some e)
    show ?thesis
    proof (cases "check_expr_symbols cname inputs e")
      case (Inl err)
      then have "\<not> set (free_symbols e) \<subseteq> set inputs"
        using check_expr_symbols_ok[of cname inputs e] by auto
      then show ?thesis using Inl Some p by auto
    next
      case (Inr u)
      then have "set (free_symbols e) \<subseteq> set inputs"
        using check_expr_symbols_ok[of cname inputs e] by simp
      then show ?thesis using Inr Some p Cons.IH by (auto split: sum.splits)
    qed
  qed
qed

lemma gen_eqs_err:
  "gen_eqs cname inputs xs = Inl err \<Longrightarrow>
   \<exists>e s. e \<in> set (e_exprs xs)
         \<and> err = UnknownSymbol cname e s \<and> s \<in> set (free_symbols e) \<and> s \<notin> set inputs"
proof (induction xs)
  case Nil
  then show ?case by simp
next
  case (Cons p xs)
  obtain name inst where p: "p = (name, inst)" by (cases p)
  show ?case
  proof (cases "e_str inst")
    case None
    then have "gen_eqs cname inputs xs = Inl err"
      using Cons.prems p by (auto split: sum.splits)
    from Cons.IH[OF this] show ?thesis using None p by auto
  next
    case (Some e)
    show ?thesis
    proof (cases "check_expr_symbols cname inputs e")
      case (Inl err')
      then have "err' = err" using Cons.prems p Some by simp
      with check_expr_symbols_err[OF Inl] show ?thesis using Some p by auto
    next
      case (Inr u)
      then have "gen_eqs cname inputs xs = Inl err"
        using Cons.prems p Some by (auto split: sum.splits)
      from Cons.IH[OF this] show ?thesis using Some p by auto
    qed
  qed
qed

lemma gen_services_ok:
  "(\<exists>s. gen_services cname inputs xs = Inr s) \<longleftrightarrow>
   (\<forall>e \<in> set (s_exprs xs). set (free_symbols e) \<subseteq> set inputs)"
proof (induction xs)
  case Nil
  then show ?case by simp
next
  case (Cons p xs)
  obtain name vstr where p: "p = (name, vstr)" by (cases p)
  show ?case
  proof (cases vstr)
    case None
    then show ?thesis using Cons.IH p by (auto split: sum.splits)
  next
    case (Some e)
    show ?thesis
    proof (cases "check_expr_symbols cname inputs e")
      case (Inl err)
      then have "\<not> set (free_symbols e) \<subseteq> set inputs"
        using check_expr_symbols_ok[of cname inputs e] by auto
      then show ?thesis using Inl Some p by auto
    next
      case (Inr u)
      then have "set (free_symbols e) \<subseteq> set inputs"
        using check_expr_symbols_ok[of cname inputs e] by simp
      then show ?thesis using Inr Some p Cons.IH by (auto split: sum.splits)
    qed
  qed
qed

lemma gen_services_err:
  "gen_services cname inputs xs = Inl err \<Longrightarrow>
   \<exists>e s. e \<in> set (s_exprs xs)
         \<and> err = UnknownSymbol cname e s \<and> s \<in> set (free_symbols e) \<and> s \<notin> set inputs"
proof (induction xs)
  case Nil
  then show ?case by simp
next
  case (Cons p xs)
  obtain name vstr where p: "p = (name, vstr)" by (cases p)
  show ?case
  proof (cases vstr)
    case None
    then have "gen_services cname inputs xs = Inl err"
      using Cons.prems p by (auto split: sum.splits)
    from Cons.IH[OF this] show ?thesis using None p by auto
  next
    case (Some e)
    show ?thesis
    proof (cases "check_expr_symbols cname inputs e")
      case (Inl err')
      then have "err' = err" using Cons.prems p Some by simp
      with check_expr_symbols_err[OF Inl] show ?thesis using Some p by auto
    next
      case (Inr u)
      then have "gen_services cname inputs xs = Inl err"
        using Cons.prems p Some by (auto split: sum.splits)
      from Cons.IH[OF this] show ?thesis using Some p by auto
    qed
  qed
qed

lemma generate_equations_ok:
  "(\<exists>eqs. generate_equations m = Inr eqs) \<longleftrightarrow>
   (\<forall>e \<in> set (equation_exprs m). set (free_symbols e) \<subseteq> set (inputs_dict m))"
proof -
  let ?c = "class_name m" and ?i = "inputs_dict m"
  have "(\<exists>eqs. generate_equations m = Inr eqs) \<longleftrightarrow>
        (\<exists>fl. gen_eqs ?c ?i (states_and_ext m) = Inr fl)
        \<and> (\<exists>gl. gen_eqs ?c ?i (algebs_and_ext m) = Inr gl)
        \<and> (\<exists>ss. gen_services ?c ?i (services m) = Inr ss)"
    by (auto simp: generate_equations_def split: sum.splits)
  then show ?thesis
    unfolding gen_eqs_ok gen_services_ok equation_exprs_def by auto
qed

lemma generate_equations_err:
  assumes "generate_equations m = Inl err"
  shows "\<exists>e s. e \<in> set (equation_exprs m) \<and> err = UnknownSymbol (class_name m) e s
           \<and> s \<in> set (free_symbols e) \<and> s \<notin> set (inputs_dict m)"
proof -
  let ?c = "class_name m" and ?i = "inputs_dict m"
  from assms consider
      "gen_eqs ?c ?i (states_and_ext m) = Inl err"
    | "gen_eqs ?c ?i (algebs_and_ext m) = Inl err"
    | "gen_services ?c ?i (services m) = Inl err"
    by (auto simp: generate_equations_def split: sum.splits)
  then show ?thesis
  proof cases
    case 1
    from gen_eqs_err[OF 1] show ?thesis by (auto simp: equation_exprs_def)
  next
    case 2
    from gen_eqs_err[OF 2] show ?thesis by (auto simp: equation_exprs_def)
  next
    case 3
    from gen_services_err[OF 3] show ?thesis by (auto simp: equation_exprs_def)
  qed
qed

lemma gen_inits_ok:
  "(\<exists>l. gen_inits cname inputs xs = Inr l) \<longleftrightarrow>
   (\<forall>e \<in> set (v_exprs xs). set (free_symbols e) \<subseteq> set inputs)"
proof (induction xs)
  case Nil
  then show ?case by simp
next
  case (Cons p xs)
  obtain name inst where p: "p = (name, inst)" by (cases p)
  have a: "(\<exists>r. (case v_str inst of None \<Rightarrow> Inr []
              | Some e \<Rightarrow> (case check_expr_symbols cname inputs e of Inl err \<Rightarrow> Inl err | Inr u \<Rightarrow> Inr [(name, e)])) = Inr r)
        \<longleftrightarrow> (\<forall>e. v_str inst = Some e \<longrightarrow> set (free_symbols e) \<subseteq> set inputs)"
  proof (cases "v_str inst")
    case None
    then show ?thesis by simp
  next
    case (Some e)
    show ?thesis
    proof (cases "check_expr_symbols cname inputs e")
      case (Inl err)
      then have "\<not> set (free_symbols e) \<subseteq> set inputs"
        using check_expr_symbols_ok[of cname inputs e] by auto
      then show ?thesis using Inl Some by simp
    next
      case (Inr u)
      then have "set (free_symbols e) \<subseteq> set inputs"
        using check_expr_symbols_ok[of cname inputs e] by simp
      then show ?thesis using Inr Some by simp
    qed
  qed
  have b: "(\<exists>r. (case v_iter inst of None \<Rightarrow> Inr ()
              | Some e \<Rightarrow> check_expr_symbols cname inputs e) = Inr r)
        \<longleftrightarrow> (\<forall>e. v_iter inst = Some e \<longrightarrow> set (free_symbols e) \<subseteq> set inputs)"
  proof (cases "v_iter inst")
    case None
    then show ?thesis by simp
  next
    case (Some e)
    then show ?thesis using check_expr_symbols_ok[of cname inputs e] by simp
  qed
  have "(\<exists>l. gen_inits cname inputs (p # xs) = Inr l) \<longleftrightarrow>
        (\<forall>e. v_str inst = Some e \<longrightarrow> set (free_symbols e) \<subseteq> set inputs)
        \<and> (\<forall>e. v_iter inst = Some e \<longrightarrow> set (free_symbols e) \<subseteq> set inputs)
        \<and> (\<exists>l. gen_inits cname inputs xs = Inr l)"
    unfolding a[symmetric] b[symmetric] p by (auto split: sum.splits)
  also have "\<dots> \<longleftrightarrow> (\<forall>e \<in> set (v_exprs (p # xs)). set (free_symbols e) \<subseteq> set inputs)"
    unfolding Cons.IH p by (cases "v_str inst"; cases "v_iter inst") auto
  finally show ?case .
qed

lemma gen_inits_err:
  "gen_inits cname inputs xs = Inl err \<Longrightarrow>
   \<exists>e s. e \<in> set (v_exprs xs)
         \<and> err = UnknownSymbol cname e s \<and> s \<in> set (free_symbols e) \<and> s \<notin> set inputs"
proof (induction xs)
  case Nil
  then show ?case by simp
next
  case (Cons p xs)
  obtain name inst where p: "p = (name, inst)" by (cases p)
  from Cons.prems p consider
      e where "v_str inst = Some e" "check_expr_symbols cname inputs e = Inl err"
    | e where "v_iter inst = Some e" "check_expr_symbols cname inputs e = Inl err"
    | "gen_inits cname inputs xs = Inl err"
    by (auto split: sum.splits option.splits)
  then show ?case
  proof cases
    case 1
    from check_expr_symbols_err[OF 1(2)] 1(1) p show ?thesis by auto
  next
    case 2
    from check_expr_symbols_err[OF 2(2)] 2(1) p show ?thesis by auto
  next
    case 3
    from Cons.IH[OF 3] p show ?thesis by auto
  qed
qed

lemma set_inputs_dict:
  assumes "distinct (num_params m @ map fst (services m) @ services_ext m @ services_ops m
                     @ map fst (discrete m))"
  shows "set (inputs_dict m) =
           set (num_params m) \<union> fst ` set (services m) \<union> set (services_ext m)
           \<union> set (services_ops m) \<union> (\<Union>(name, flags) \<in> set (discrete m). set flags)
           \<union> fst ` set (states m) \<union> fst ` set (states_ext m)
           \<union> fst ` set (algebs m) \<union> fst ` set (algebs_ext m)
           \<union> set (config m) \<union> {''dae_t''}"
proof -
  let ?items = "map (\<lambda>k. (k, [k])) (num_params m) @ map (\<lambda>(k, e). (k, [k])) (services m)
        @ map (\<lambda>k. (k, [k])) (services_ext m) @ map (\<lambda>k. (k, [k])) (services_ops m) @ discrete m"
  have keys: "map fst ?items = num_params m @ map fst (services m) @ services_ext m
        @ services_ops m @ map fst (discrete m)"
    by (simp add: comp_def case_prod_unfold)
  have "odict ?items = ?items"
    by (rule odict_distinct) (simp only: keys assms)
  then have p: "set (all_params_names m) =
      set (num_params m) \<union> fst ` set (services m) \<union> set (services_ext m)
      \<union> set (services_ops m) \<union> (\<Union>(name, flags) \<in> set (discrete m). set flags)"
    unfolding all_params_names_def by (auto simp: case_prod_unfold)
  have v: "set (all_vars_names m) = fst ` set (states m) \<union> fst ` set (states_ext m)
      \<union> fst ` set (algebs m) \<union> fst ` set (algebs_ext m)"
    unfolding all_vars_names_def all_vars_def by (simp add: keys_odict image_Un Un_assoc)
  have "set (inputs_dict m) =
      set (all_params_names m) \<union> set (all_vars_names m) \<union> set (config m) \<union> {''dae_t''}"
    unfolding inputs_dict_def set_map keys_odict by (auto simp: image_iff)
  then show ?thesis unfolding p v by blast
qed

text \<open>
  C1 (amended). For every model whose registered parameters, services and discrete
  components have pairwise distinct names, the names under which strings are parsed are
  exactly: the numeric parameters, the services of \<open>services\<close>, \<open>services_ext\<close> and
  \<open>services_ops\<close>, the flags of the discrete components, the variables, the config
  options and \<open>dae_t\<close>. Checking an expression against them either raises the error that
  names the class, the expression and a free symbol of it outside this set, or passes,
  and it passes exactly when every free symbol is in the set; \<open>generate_equations\<close> and
  \<open>generate_init\<close> succeed exactly when all their expressions pass, and an error they
  raise names one of their expressions and an unknown symbol of it.
\<close>

theorem symbols_visible_to_equations:
  assumes "distinct (num_params m @ map fst (services m) @ services_ext m @ services_ops m
                     @ map fst (discrete m))"
  shows "set (inputs_dict m) =
           set (num_params m) \<union> fst ` set (services m) \<union> set (services_ext m)
           \<union> set (services_ops m) \<union> (\<Union>(name, flags) \<in> set (discrete m). set flags)
           \<union> fst ` set (states m) \<union> fst ` set (states_ext m)
           \<union> fst ` set (algebs m) \<union> fst ` set (algebs_ext m)
           \<union> set (config m) \<union> {''dae_t''}
       \<and> (\<forall>e. (\<exists>s. check_expr_symbols (class_name m) (inputs_dict m) e
                       = Inl (UnknownSymbol (class_name m) e s)
                     \<and> s \<in> set (free_symbols e) \<and> s \<notin> set (inputs_dict m))
              \<or> (check_expr_symbols (class_name m) (inputs_dict m) e = Inr ()
                  \<and> set (free_symbols e) \<subseteq> set (inputs_dict m)))
       \<and> ((\<exists>eqs. generate_equations m = Inr eqs) \<longleftrightarrow>
            (\<forall>e \<in> set (equation_exprs m). set (free_symbols e) \<subseteq> set (inputs_dict m)))
       \<and> (\<forall>err. generate_equations m = Inl err \<longrightarrow>
            (\<exists>e s. e \<in> set (equation_exprs m) \<and> err = UnknownSymbol (class_name m) e s
                 \<and> s \<in> set (free_symbols e) \<and> s \<notin> set (inputs_dict m)))
       \<and> ((\<exists>inits. generate_init m = Inr inits) \<longleftrightarrow>
            (\<forall>e \<in> set (init_exprs m). set (free_symbols e) \<subseteq> set (inputs_dict m)))
       \<and> (\<forall>err. generate_init m = Inl err \<longrightarrow>
            (\<exists>e s. e \<in> set (init_exprs m) \<and> err = UnknownSymbol (class_name m) e s
                 \<and> s \<in> set (free_symbols e) \<and> s \<notin> set (inputs_dict m)))"
proof (intro conjI allI impI)
  show "set (inputs_dict m) =
           set (num_params m) \<union> fst ` set (services m) \<union> set (services_ext m)
           \<union> set (services_ops m) \<union> (\<Union>(name, flags) \<in> set (discrete m). set flags)
           \<union> fst ` set (states m) \<union> fst ` set (states_ext m)
           \<union> fst ` set (algebs m) \<union> fst ` set (algebs_ext m)
           \<union> set (config m) \<union> {''dae_t''}"
    by (rule set_inputs_dict[OF assms])
next
  fix e
  show "(\<exists>s. check_expr_symbols (class_name m) (inputs_dict m) e
                       = Inl (UnknownSymbol (class_name m) e s)
                     \<and> s \<in> set (free_symbols e) \<and> s \<notin> set (inputs_dict m))
              \<or> (check_expr_symbols (class_name m) (inputs_dict m) e = Inr ()
                  \<and> set (free_symbols e) \<subseteq> set (inputs_dict m))"
    by (rule check_expr_symbols_cases)
next
  show "(\<exists>eqs. generate_equations m = Inr eqs) \<longleftrightarrow>
            (\<forall>e \<in> set (equation_exprs m). set (free_symbols e) \<subseteq> set (inputs_dict m))"
    by (rule generate_equations_ok)
next
  fix err assume "generate_equations m = Inl err"
  then show "\<exists>e s. e \<in> set (equation_exprs m) \<and> err = UnknownSymbol (class_name m) e s
                 \<and> s \<in> set (free_symbols e) \<and> s \<notin> set (inputs_dict m)"
    by (rule generate_equations_err)
next
  show "(\<exists>inits. generate_init m = Inr inits) \<longleftrightarrow>
            (\<forall>e \<in> set (init_exprs m). set (free_symbols e) \<subseteq> set (inputs_dict m))"
    unfolding generate_init_def init_exprs_def by (rule gen_inits_ok)
next
  fix err assume "generate_init m = Inl err"
  then show "\<exists>e s. e \<in> set (init_exprs m) \<and> err = UnknownSymbol (class_name m) e s
                 \<and> s \<in> set (free_symbols e) \<and> s \<notin> set (inputs_dict m)"
    unfolding generate_init_def init_exprs_def by (rule gen_inits_err)
qed

lemma inputs_dict_pq_example:
  "inputs_dict pq_example =
     [''u'', ''p0'', ''vmin'', ''vmax'', ''vcmp_zi'', ''vcmp_zl'', ''vcmp_zu'', ''a'', ''v'',
      ''pq2z'', ''dae_t'']"
  by (simp add: inputs_dict_def all_params_names_def all_vars_names_def all_vars_def odict_def
      pq_example_def)

theorem symbols_visible_to_equations_witness:
  "set (inputs_dict pq_example) =
     {''u'', ''p0'', ''vmin'', ''vmax'', ''vcmp_zi'', ''vcmp_zl'', ''vcmp_zu'', ''a'', ''v'',
      ''pq2z'', ''dae_t''}
   \<and> check_expr_symbols ''PQ'' (inputs_dict pq_example)
        (Mul (Sym ''u'') (Mul (Sym ''p0'') (Sym ''vcmp_zi''))) = Inr ()
   \<and> (\<exists>eqs. generate_equations pq_example = Inr eqs)"
proof -
  let ?e = "Mul (Sym ''u'') (Mul (Sym ''p0'') (Sym ''vcmp_zi''))"
  have d: "distinct (num_params pq_example @ map fst (services pq_example)
      @ services_ext pq_example @ services_ops pq_example @ map fst (discrete pq_example))"
    by (simp add: pq_example_def)
  note th = symbols_visible_to_equations[OF d]
  have s: "set (inputs_dict pq_example) =
     {''u'', ''p0'', ''vmin'', ''vmax'', ''vcmp_zi'', ''vcmp_zl'', ''vcmp_zu'', ''a'', ''v'',
      ''pq2z'', ''dae_t''}"
    unfolding th[THEN conjunct1] by (simp add: pq_example_def insert_commute)
  have e: "equation_exprs pq_example = [?e]"
    by (simp add: equation_exprs_def states_and_ext_def algebs_and_ext_def odict_def pq_example_def)
  have sub: "set (free_symbols ?e) \<subseteq> set (inputs_dict pq_example)"
    unfolding s by simp
  have cn: "class_name pq_example = ''PQ''" by (simp add: pq_example_def)
  from th[THEN conjunct2, THEN conjunct1, THEN spec, of ?e]
  have c: "check_expr_symbols ''PQ'' (inputs_dict pq_example) ?e = Inr ()"
    unfolding cn using sub by blast
  from th[THEN conjunct2, THEN conjunct2, THEN conjunct1]
  have g: "\<exists>eqs. generate_equations pq_example = Inr eqs"
    using sub e by simp
  show ?thesis using s c g by (intro conjI)
qed

text \<open>
  The set of claim C1 is not the set the code builds. In the PQ example the flag
  \<open>vcmp_zi\<close> is no parameter, variable, service or config option, yet it is a known
  symbol and the equation that uses it passes the check; the parameter \<open>name\<close> is in the
  claimed set, yet it is no known symbol and an expression that uses it is refused.
\<close>

theorem symbols_not_as_claimed:
  "''vcmp_zi'' \<in> set (inputs_dict pq_example)
   \<and> ''vcmp_zi'' \<notin> spec_symbols pq_example
   \<and> check_expr_symbols ''PQ'' (inputs_dict pq_example)
        (Mul (Sym ''u'') (Mul (Sym ''p0'') (Sym ''vcmp_zi''))) = Inr ()
   \<and> ''name'' \<in> spec_symbols pq_example
   \<and> ''name'' \<notin> set (inputs_dict pq_example)
   \<and> check_expr_symbols ''PQ'' (inputs_dict pq_example) (Sym ''name'')
        = Inl (UnknownSymbol ''PQ'' (Sym ''name'') ''name'')"
  unfolding inputs_dict_pq_example
  by (simp add: spec_symbols_def check_expr_symbols_def all_vars_names_def all_vars_def odict_def
      pq_example_def)

section \<open>Symbolic processing: Jacobians (core/model.py, ModelCall and SymProcessor)\<close>

text \<open>
  \<open>ModelCall\<close> keeps, per Jacobian name, the three lists \<open>ijac\<close>, \<open>jjac\<close> and \<open>vjac\<close>
  (defaultdicts of lists). \<open>append_ijv\<close> appends to all three at once, so the model keeps
  one list of triplets per name, as \<open>zip_ijv\<close> returns it. A value is a number or a
  callable; a callable made by \<open>lambdify\<close> is represented by its expression. The type
  checks of \<open>append_ijv\<close> hold by typing: the indices are ints and the value is a number
  or a callable.
\<close>

datatype jval = JConst real | JFun expr

type_synonym ijv = "string \<Rightarrow> (nat \<times> nat \<times> jval) list"

text \<open>
  Modelled from the spec: \<open>jac_names\<close> and \<open>jac_types\<close> of andes/shared.py, which is not
  among the sources. The spec has "four index-value-triplet lists (one per Jacobian
  block: d(diff)/d(state), d(diff)/d(algeb), d(alg)/d(state), d(alg)/d(algeb))"; the
  sources name them \<open>fx\<close>, \<open>fy\<close>, \<open>gx\<close>, \<open>gy\<close> (\<open>j_update\<close>) and mark the constant variant
  of a block by a trailing \<open>c\<close> (\<open>'gyc'\<close>, and the test \<open>j_full_name[-1] == 'c'\<close>).
  \<open>clear_ijv\<close> resets the lists of every \<open>jname + jtype\<close>.
\<close>

definition jac_names :: "string list" where
  "jac_names = [''fx'', ''fy'', ''gx'', ''gy'']"

definition jac_types :: "string list" where
  "jac_types = [''c'', '''']"

definition clear_ijv :: "ijv \<Rightarrow> ijv" where
  "clear_ijv calls =
     (\<lambda>name. if name \<in> set (concat (map (\<lambda>jname. map (\<lambda>jtype. jname @ jtype) jac_types) jac_names))
              then [] else calls name)"

definition append_ijv :: "ijv \<Rightarrow> string \<Rightarrow> nat \<Rightarrow> nat \<Rightarrow> jval \<Rightarrow> ijv" where
  "append_ijv calls j_full_name ii jj vv = calls(j_full_name := calls j_full_name @ [(ii, jj, vv)])"

text \<open>
  sympy's part, a library: \<open>Matrix.jacobian\<close> differentiates every equation by every
  variable, and \<open>SparseMatrix(...).row_list()\<close> lists the entries that are not zero as
  \<open>(row, col, entry)\<close>, sorted by row and column. The derivative itself, with the
  simplification sympy applies to it, is the parameter \<open>D\<close>; an entry is structurally zero
  when it is the expression \<open>0\<close>.
\<close>

definition jacobian :: "(expr \<Rightarrow> expr \<Rightarrow> expr) \<Rightarrow> expr list \<Rightarrow> expr list \<Rightarrow> expr list list" where
  "jacobian D eqs vars = map (\<lambda>e. map (\<lambda>v. D e v) vars) eqs"

definition nonzero_entries :: "nat \<Rightarrow> expr list \<Rightarrow> (nat \<times> nat \<times> expr) list" where
  "nonzero_entries i row =
     concat (map (\<lambda>(j, e). if e \<noteq> Num 0 then [(i, j, e)] else []) (enumerate 0 row))"

definition row_list :: "expr list list \<Rightarrow> (nat \<times> nat \<times> expr) list" where
  "row_list M = concat (map (\<lambda>(i, row). nonzero_entries i row) (enumerate 0 M))"

text \<open>
  \<open>list.index\<close> raises a ValueError when the element is absent.

  \<open>generate_jacobians\<close>: the store is cleared; the two Jacobians are computed when their
  equation lists are not empty; for every nonzero entry of \<open>df\<close> and then of \<open>dg\<close> the
  names of the equation and of the variable are looked up, the block name is
  \<open>eqn.e_code + var.v_code\<close>, and the local indices are appended with the compiled entry;
  last, every algebraic variable with a nonzero \<open>diag_eps\<close> appends it to \<open>'gyc'\<close> at its
  own row and column.
\<close>

fun list_index :: "'a list \<Rightarrow> 'a \<Rightarrow> pyexn + nat" where
  "list_index [] a = Inl ValueError"
| "list_index (x # xs) a =
     (if x = a then Inr 0
      else case list_index xs a of Inl e \<Rightarrow> Inl e | Inr i \<Rightarrow> Inr (i + 1))"

fun jac_loop :: "model \<Rightarrow> nat \<Rightarrow> (nat \<times> nat \<times> expr) list \<Rightarrow> ijv \<Rightarrow> pyexn + ijv" where
  "jac_loop m idx [] calls = Inr calls"
| "jac_loop m idx ((e_idx, v_idx, e_symbolic) # rest) calls =
     (case getitem (if idx = 0 then map fst (states_and_ext m) else map fst (algebs_and_ext m)) e_idx of
        Inl err \<Rightarrow> Inl err
      | Inr eq_name \<Rightarrow>
     (case getitem (vars_dict m) v_idx of
        Inl err \<Rightarrow> Inl err
      | Inr var_name \<Rightarrow>
     (case map_of (all_vars m) eq_name of
        None \<Rightarrow> Inl KeyError
      | Some eqn \<Rightarrow>
     (case map_of (all_vars m) var_name of
        None \<Rightarrow> Inl KeyError
      | Some var \<Rightarrow>
          jac_loop m idx rest
            (append_ijv calls (e_code eqn @ v_code var) e_idx v_idx (JFun e_symbolic))))))"

fun diag_loop :: "model \<Rightarrow> (string \<times> var) list \<Rightarrow> ijv \<Rightarrow> pyexn + ijv" where
  "diag_loop m [] calls = Inr calls"
| "diag_loop m ((name, var) # rest) calls =
     (if diag_eps var = 0 then diag_loop m rest calls
      else
        (case list_index (map fst (algebs_and_ext m)) name of
           Inl err \<Rightarrow> Inl err
         | Inr e_idx \<Rightarrow>
        (case list_index (vars_dict m) name of
           Inl err \<Rightarrow> Inl err
         | Inr v_idx \<Rightarrow>
             diag_loop m rest (append_ijv calls ''gyc'' e_idx v_idx (JConst (diag_eps var))))))"

definition generate_jacobians ::
  "(expr \<Rightarrow> expr \<Rightarrow> expr) \<Rightarrow> model \<Rightarrow> equations \<Rightarrow> ijv \<Rightarrow> pyexn + ijv" where
  "generate_jacobians D m eqs calls =
     (let calls0 = clear_ijv calls;
          vars_list = map Sym (vars_dict m);
          dg_syms = (if length (g_list eqs) > 0 then jacobian D (g_list eqs) vars_list else []);
          df_syms = (if length (f_list eqs) > 0 then jacobian D (f_list eqs) vars_list else [])
      in case jac_loop m 0 (row_list df_syms) calls0 of
           Inl err \<Rightarrow> Inl err
         | Inr calls1 \<Rightarrow>
        (case jac_loop m 1 (row_list dg_syms) calls1 of
           Inl err \<Rightarrow> Inl err
         | Inr calls2 \<Rightarrow> diag_loop m (algebs m) calls2))"

text \<open>
  For the statements. \<open>append_all\<close> is a sequence of \<open>append_ijv\<close> calls, and
  \<open>stored_under name entries\<close> lists, in order, the triplets that the entries filed under
  \<open>name\<close> consist of. \<open>block_name m idx i j\<close> is the name \<open>eqn.e_code + var.v_code\<close> that the loop
  computes for row \<open>i\<close> of the differential (\<open>idx = 0\<close>) or algebraic (\<open>idx = 1\<close>) equations and
  column \<open>j\<close>, and \<open>jac_entries\<close> lists what the loop appends for one of the two Jacobians.
  \<open>first_index\<close> is the first position of an element in a list, and \<open>diag_entries\<close> are the
  \<open>diag_eps\<close> entries of the algebraic variables.
\<close>

definition append_all :: "ijv \<Rightarrow> (string \<times> nat \<times> nat \<times> jval) list \<Rightarrow> ijv" where
  "append_all calls entries = foldl (\<lambda>c (name, ii, jj, vv). append_ijv c name ii jj vv) calls entries"

definition stored_under :: "string \<Rightarrow> (string \<times> nat \<times> nat \<times> jval) list \<Rightarrow> (nat \<times> nat \<times> jval) list" where
  "stored_under name entries = map snd (filter (\<lambda>entry. fst entry = name) entries)"

definition eq_names_of :: "model \<Rightarrow> nat \<Rightarrow> string list" where
  "eq_names_of m idx =
     (if idx = 0 then map fst (states_and_ext m) else map fst (algebs_and_ext m))"

definition block_name :: "model \<Rightarrow> nat \<Rightarrow> nat \<Rightarrow> nat \<Rightarrow> string" where
  "block_name m idx i j =
     (case map_of (all_vars m) (eq_names_of m idx ! i) of
        None \<Rightarrow> []
      | Some eqn \<Rightarrow>
          (case map_of (all_vars m) (vars_dict m ! j) of
             None \<Rightarrow> []
           | Some var \<Rightarrow> e_code eqn @ v_code var))"

definition jac_entries ::
  "(expr \<Rightarrow> expr \<Rightarrow> expr) \<Rightarrow> model \<Rightarrow> nat \<Rightarrow> expr list \<Rightarrow> (string \<times> nat \<times> nat \<times> jval) list" where
  "jac_entries D m idx exprs =
     map (\<lambda>(i, j, d). (block_name m idx i j, i, j, JFun d))
       (row_list (if length exprs > 0 then jacobian D exprs (map Sym (vars_dict m)) else []))"

definition first_index :: "'a list \<Rightarrow> 'a \<Rightarrow> nat" where
  "first_index xs a = length (takeWhile (\<lambda>x. x \<noteq> a) xs)"

definition diag_entries :: "model \<Rightarrow> (string \<times> var) list \<Rightarrow> (string \<times> nat \<times> nat \<times> jval) list" where
  "diag_entries m items =
     map (\<lambda>(name, var). (''gyc'', first_index (map fst (algebs_and_ext m)) name,
                          first_index (vars_dict m) name, JConst (diag_eps var)))
         (filter (\<lambda>(name, var). diag_eps var \<noteq> 0) items)"


text \<open>
  An instance for the examples: a stand-in for the derivative that is left unevaluated
  and is zero exactly when the variable does not occur, and a model with one state \<open>x\<close>
  (\<open>x' = p * y\<close>) and one algebraic variable \<open>y\<close> (\<open>0 = x + y\<close>, \<open>diag_eps = 1e-6\<close>).
\<close>

definition occurs_diff :: "expr \<Rightarrow> expr \<Rightarrow> expr" where
  "occurs_diff e v =
     (case v of
        Sym x \<Rightarrow> if x \<in> set (free_symbols e) then Fn ''Derivative'' e else Num 0
      | _ \<Rightarrow> Num 0)"

definition dae_example :: model where
  "dae_example =
     \<lparr>class_name = ''Example'',
      params = [''idx'', ''u'', ''name'', ''p''],
      num_params = [''u'', ''p''],
      services = [], services_ext = [], services_ops = [], services_ref = [], services_fnd = [],
      discrete = [],
      states = [(''x'', \<lparr>e_code = ''f'', v_code = ''x'', e_str = Some (Mul (Sym ''p'') (Sym ''y'')),
                         v_str = None, v_iter = None, diag_eps = 0\<rparr>)],
      states_ext = [],
      algebs = [(''y'', \<lparr>e_code = ''g'', v_code = ''y'', e_str = Some (Add (Sym ''x'') (Sym ''y'')),
                         v_str = None, v_iter = None, diag_eps = 1 / 1000000\<rparr>)],
      algebs_ext = [],
      config = []\<rparr>"

subsection \<open>The triplets are the nonzero derivatives\<close>

lemma append_all_Nil: "append_all calls [] = calls"
  by (simp add: append_all_def)

lemma append_all_Cons:
  "append_all calls ((name, ii, jj, vv) # entries) = append_all (append_ijv calls name ii jj vv) entries"
  by (simp add: append_all_def)

lemma append_all_append: "append_all calls (xs @ ys) = append_all (append_all calls xs) ys"
  by (simp add: append_all_def)

lemma set_nonzero_entries:
  "set (nonzero_entries i row) = {(i', j, e). i' = i \<and> j < length row \<and> e = row ! j \<and> e \<noteq> Num 0}"
  unfolding nonzero_entries_def
  by (auto simp: in_set_enumerate_eq split: if_splits)

lemma set_row_list:
  "set (row_list M) =
     {(i, j, e). i < length M \<and> j < length (M ! i) \<and> e = M ! i ! j \<and> e \<noteq> Num 0}"
proof (rule set_eqI)
  fix t :: "nat \<times> nat \<times> expr"
  obtain i j e where t: "t = (i, j, e)" by (cases t)
  have "t \<in> set (row_list M) \<longleftrightarrow>
        (\<exists>p \<in> set (enumerate 0 M). t \<in> set (nonzero_entries (fst p) (snd p)))"
    unfolding row_list_def by (auto simp: case_prod_unfold)
  also have "\<dots> \<longleftrightarrow> (\<exists>p \<in> set (enumerate 0 M).
        i = fst p \<and> j < length (snd p) \<and> e = snd p ! j \<and> e \<noteq> Num 0)"
    unfolding set_nonzero_entries t by simp
  also have "\<dots> \<longleftrightarrow> (i < length M \<and> j < length (M ! i) \<and> e = M ! i ! j \<and> e \<noteq> Num 0)"
  proof
    assume "\<exists>p \<in> set (enumerate 0 M). i = fst p \<and> j < length (snd p) \<and> e = snd p ! j \<and> e \<noteq> Num 0"
    then obtain p where "p \<in> set (enumerate 0 M)" "i = fst p" "j < length (snd p)"
      "e = snd p ! j" "e \<noteq> Num 0" by blast
    then show "i < length M \<and> j < length (M ! i) \<and> e = M ! i ! j \<and> e \<noteq> Num 0"
      by (auto simp: in_set_enumerate_eq)
  next
    assume a: "i < length M \<and> j < length (M ! i) \<and> e = M ! i ! j \<and> e \<noteq> Num 0"
    then have "(i, M ! i) \<in> set (enumerate 0 M)" by (simp add: in_set_enumerate_eq)
    with a show "\<exists>p \<in> set (enumerate 0 M). i = fst p \<and> j < length (snd p) \<and> e = snd p ! j \<and> e \<noteq> Num 0"
      by force
  qed
  finally show "t \<in> set (row_list M) \<longleftrightarrow>
      t \<in> {(i, j, e). i < length M \<and> j < length (M ! i) \<and> e = M ! i ! j \<and> e \<noteq> Num 0}"
    unfolding t by simp
qed

lemma set_row_list_jacobian:
  "set (row_list (jacobian D eqs vars)) =
     {(i, j, e). i < length eqs \<and> j < length vars \<and> e = D (eqs ! i) (vars ! j) \<and> e \<noteq> Num 0}"
  unfolding set_row_list by (auto simp: jacobian_def)

lemma list_index_found:
  "a \<in> set xs \<Longrightarrow> list_index xs a = Inr (first_index xs a)"
  by (induction xs) (auto simp: first_index_def)

lemma first_index_less: "a \<in> set xs \<Longrightarrow> first_index xs a < length xs"
  by (induction xs) (auto simp: first_index_def)

lemma nth_first_index: "a \<in> set xs \<Longrightarrow> xs ! first_index xs a = a"
  by (induction xs) (auto simp: first_index_def)

lemma distinct_keys_odict_set:
  "distinct (map fst d) \<Longrightarrow> distinct (map fst (odict_set d k v))"
  by (induction d k v rule: odict_set.induct) (auto simp: keys_odict_set)

lemma distinct_keys_foldl_odict_set:
  "distinct (map fst acc) \<Longrightarrow> distinct (map fst (foldl (\<lambda>d (k, v). odict_set d k v) acc items))"
  by (induction items arbitrary: acc) (auto simp: distinct_keys_odict_set split: prod.splits)

lemma distinct_keys_odict: "distinct (map fst (odict items))"
  by (simp add: odict_def distinct_keys_foldl_odict_set)

lemma vars_dict_all_vars: "vars_dict m = map fst (all_vars m)"
proof -
  have "distinct (map fst (map (\<lambda>k. (k, ())) (all_vars_names m)))"
    by (simp add: comp_def all_vars_names_def all_vars_def distinct_keys_odict)
  then have "odict (map (\<lambda>k. (k, ())) (all_vars_names m)) = map (\<lambda>k. (k, ())) (all_vars_names m)"
    by (rule odict_distinct)
  then show ?thesis
    by (simp add: vars_dict_def comp_def all_vars_names_def)
qed

lemma all_vars_lookup: "k \<in> fst ` set (all_vars m) \<Longrightarrow> \<exists>v. map_of (all_vars m) k = Some v"
  by (cases "map_of (all_vars m) k") (auto simp: map_of_eq_None_iff)

lemma keys_states_and_ext: "fst ` set (states_and_ext m) \<subseteq> fst ` set (all_vars m)"
  by (auto simp: states_and_ext_def all_vars_def keys_odict)

lemma keys_algebs_and_ext: "fst ` set (algebs_and_ext m) \<subseteq> fst ` set (all_vars m)"
  by (auto simp: algebs_and_ext_def all_vars_def keys_odict)

lemma keys_algebs: "fst ` set (algebs m) \<subseteq> fst ` set (algebs_and_ext m)"
  by (auto simp: algebs_and_ext_def keys_odict)

lemma gen_eqs_length: "gen_eqs cname inputs xs = Inr dest \<Longrightarrow> length dest = length xs"
  by (induction xs arbitrary: dest) (auto split: option.splits sum.splits)

lemma append_all_lookup:
  "append_all calls entries name = calls name @ stored_under name entries"
proof (induction entries arbitrary: calls)
  case Nil
  then show ?case by (simp add: append_all_def stored_under_def)
next
  case (Cons entry entries)
  obtain n i j v where entry: "entry = (n, i, j, v)" by (cases entry)
  have "append_all calls (entry # entries) name
      = append_all (append_ijv calls n i j v) entries name"
    unfolding entry by (simp add: append_all_Cons)
  also have "\<dots> = append_ijv calls n i j v name @ stored_under name entries"
    by (rule Cons.IH)
  also have "\<dots> = calls name @ stored_under name (entry # entries)"
    unfolding entry by (simp add: append_ijv_def stored_under_def)
  finally show ?case .
qed

lemma jac_loop_appends:
  assumes "\<forall>(i, j, e) \<in> set items. i < length (eq_names_of m idx) \<and> j < length (vars_dict m)"
  shows "jac_loop m idx items calls
           = Inr (append_all calls (map (\<lambda>(i, j, e). (block_name m idx i j, i, j, JFun e)) items))"
  using assms
proof (induction items arbitrary: calls)
  case Nil
  then show ?case by (simp add: append_all_Nil)
next
  case (Cons t items)
  obtain i j e where t: "t = (i, j, e)" by (cases t)
  let ?keys = "if idx = 0 then map fst (states_and_ext m) else map fst (algebs_and_ext m)"
  have keys: "eq_names_of m idx = ?keys" by (simp add: eq_names_of_def)
  from Cons.prems t have i: "i < length ?keys" and j: "j < length (vars_dict m)"
    unfolding keys by auto
  have g1: "getitem ?keys i = Inr (?keys ! i)"
    using i by (simp add: getitem_def)
  have g2: "getitem (vars_dict m) j = Inr (vars_dict m ! j)"
    using j by (simp add: getitem_def)
  have "?keys ! i \<in> set ?keys" using i by (rule nth_mem)
  then have "?keys ! i \<in> fst ` set (all_vars m)"
    using keys_states_and_ext[of m] keys_algebs_and_ext[of m] by (auto split: if_splits)
  then obtain eqn where eqn: "map_of (all_vars m) (?keys ! i) = Some eqn"
    using all_vars_lookup by blast
  have "vars_dict m ! j \<in> set (vars_dict m)" using j by (rule nth_mem)
  then have "vars_dict m ! j \<in> fst ` set (all_vars m)"
    by (simp add: vars_dict_all_vars)
  then obtain var where var: "map_of (all_vars m) (vars_dict m ! j) = Some var"
    using all_vars_lookup by blast
  let ?name = "e_code eqn @ v_code var"
  have bn: "block_name m idx i j = ?name"
    unfolding block_name_def keys using eqn var by simp
  let ?calls1 = "append_ijv calls ?name i j (JFun e)"
  have step: "jac_loop m idx (t # items) calls = jac_loop m idx items ?calls1"
    unfolding t using g1 g2 eqn var by simp
  from Cons.prems have "\<forall>(i, j, e) \<in> set items. i < length (eq_names_of m idx) \<and> j < length (vars_dict m)"
    by simp
  from Cons.IH[OF this, of ?calls1]
  have r: "jac_loop m idx items ?calls1
      = Inr (append_all ?calls1 (map (\<lambda>(i, j, e). (block_name m idx i j, i, j, JFun e)) items))" .
  have "jac_loop m idx (t # items) calls
      = Inr (append_all ?calls1 (map (\<lambda>(i, j, e). (block_name m idx i j, i, j, JFun e)) items))"
    using step r by simp
  also have "append_all ?calls1 (map (\<lambda>(i, j, e). (block_name m idx i j, i, j, JFun e)) items)
      = append_all calls (map (\<lambda>(i, j, e). (block_name m idx i j, i, j, JFun e)) (t # items))"
    unfolding t using bn by (simp add: append_all_Cons)
  finally show ?case .
qed

lemma diag_loop_appends:
  assumes "fst ` set items \<subseteq> fst ` set (algebs_and_ext m)"
  shows "diag_loop m items calls = Inr (append_all calls (diag_entries m items))"
  using assms
proof (induction items arbitrary: calls)
  case Nil
  then show ?case by (simp add: diag_entries_def append_all_Nil)
next
  case (Cons p items)
  obtain name var where p: "p = (name, var)" by (cases p)
  from Cons.prems have rest: "fst ` set items \<subseteq> fst ` set (algebs_and_ext m)" by simp
  show ?case
  proof (cases "diag_eps var = 0")
    case True
    then show ?thesis using Cons.IH[OF rest] p by (simp add: diag_entries_def)
  next
    case False
    from Cons.prems p have a: "name \<in> set (map fst (algebs_and_ext m))" by simp
    then have "name \<in> fst ` set (all_vars m)"
      using keys_algebs_and_ext[of m] by auto
    then have b: "name \<in> set (vars_dict m)" by (simp add: vars_dict_all_vars)
    show ?thesis
      using False p Cons.IH[OF rest] list_index_found[OF a] list_index_found[OF b]
      by (simp add: diag_entries_def append_all_Cons)
  qed
qed

lemma set_row_list_guarded:
  "set (row_list (if length eqs > 0 then jacobian D eqs vars else [])) =
     {(i, j, e). i < length eqs \<and> j < length vars \<and> e = D (eqs ! i) (vars ! j) \<and> e \<noteq> Num 0}"
proof (cases "length eqs > 0")
  case True
  then show ?thesis by (simp add: set_row_list_jacobian)
next
  case False
  then have "eqs = []" by simp
  then show ?thesis by (simp add: row_list_def)
qed

lemma block_name_lookup:
  assumes "i < length (eq_names_of m idx)" and "j < length (vars_dict m)"
  shows "\<exists>eqn var. map_of (all_vars m) (eq_names_of m idx ! i) = Some eqn
           \<and> map_of (all_vars m) (vars_dict m ! j) = Some var
           \<and> block_name m idx i j = e_code eqn @ v_code var"
proof -
  have "eq_names_of m idx ! i \<in> set (eq_names_of m idx)" using assms(1) by (rule nth_mem)
  then have "eq_names_of m idx ! i \<in> fst ` set (all_vars m)"
    using keys_states_and_ext[of m] keys_algebs_and_ext[of m]
    by (auto simp: eq_names_of_def split: if_splits)
  then obtain eqn where eqn: "map_of (all_vars m) (eq_names_of m idx ! i) = Some eqn"
    using all_vars_lookup by blast
  have "vars_dict m ! j \<in> set (vars_dict m)" using assms(2) by (rule nth_mem)
  then have "vars_dict m ! j \<in> fst ` set (all_vars m)"
    by (simp add: vars_dict_all_vars)
  then obtain var where var: "map_of (all_vars m) (vars_dict m ! j) = Some var"
    using all_vars_lookup by blast
  have "block_name m idx i j = e_code eqn @ v_code var"
    unfolding block_name_def using eqn var by simp
  with eqn var show ?thesis by blast
qed

lemma set_jac_entries:
  assumes "length exprs = length (eq_names_of m idx)"
  shows "set (jac_entries D m idx exprs) =
     {(name, i, j, v). i < length exprs \<and> j < length (vars_dict m)
        \<and> D (exprs ! i) (Sym (vars_dict m ! j)) \<noteq> Num 0
        \<and> v = JFun (D (exprs ! i) (Sym (vars_dict m ! j)))
        \<and> (\<exists>eqn var. map_of (all_vars m) (eq_names_of m idx ! i) = Some eqn
              \<and> map_of (all_vars m) (vars_dict m ! j) = Some var
              \<and> name = e_code eqn @ v_code var)}"
proof (rule set_eqI)
  fix t :: "string \<times> nat \<times> nat \<times> jval"
  obtain name i j v where t: "t = (name, i, j, v)" by (cases t)
  let ?M = "if length exprs > 0 then jacobian D exprs (map Sym (vars_dict m)) else []"
  have rl: "set (row_list ?M) =
      {(i, j, e). i < length exprs \<and> j < length (vars_dict m)
                  \<and> e = D (exprs ! i) (Sym (vars_dict m ! j)) \<and> e \<noteq> Num 0}"
    unfolding set_row_list_guarded by auto
  have "t \<in> set (jac_entries D m idx exprs) \<longleftrightarrow>
      (\<exists>d. (i, j, d) \<in> set (row_list ?M) \<and> name = block_name m idx i j \<and> v = JFun d)"
    unfolding jac_entries_def t by (force simp: image_iff)
  also have "\<dots> \<longleftrightarrow> (i < length exprs \<and> j < length (vars_dict m)
        \<and> D (exprs ! i) (Sym (vars_dict m ! j)) \<noteq> Num 0
        \<and> v = JFun (D (exprs ! i) (Sym (vars_dict m ! j)))
        \<and> name = block_name m idx i j)"
    unfolding rl by auto
  also have "\<dots> \<longleftrightarrow> (i < length exprs \<and> j < length (vars_dict m)
        \<and> D (exprs ! i) (Sym (vars_dict m ! j)) \<noteq> Num 0
        \<and> v = JFun (D (exprs ! i) (Sym (vars_dict m ! j)))
        \<and> (\<exists>eqn var. map_of (all_vars m) (eq_names_of m idx ! i) = Some eqn
              \<and> map_of (all_vars m) (vars_dict m ! j) = Some var
              \<and> name = e_code eqn @ v_code var))"
  proof (cases "i < length exprs \<and> j < length (vars_dict m)")
    case True
    then have "i < length (eq_names_of m idx)" "j < length (vars_dict m)"
      using assms by simp_all
    from block_name_lookup[OF this] obtain eqn var where
      l: "map_of (all_vars m) (eq_names_of m idx ! i) = Some eqn"
         "map_of (all_vars m) (vars_dict m ! j) = Some var"
         "block_name m idx i j = e_code eqn @ v_code var"
      by blast
    then show ?thesis by auto
  next
    case False
    then show ?thesis by auto
  qed
  finally show "t \<in> set (jac_entries D m idx exprs) \<longleftrightarrow>
      t \<in> {(name, i, j, v). i < length exprs \<and> j < length (vars_dict m)
        \<and> D (exprs ! i) (Sym (vars_dict m ! j)) \<noteq> Num 0
        \<and> v = JFun (D (exprs ! i) (Sym (vars_dict m ! j)))
        \<and> (\<exists>eqn var. map_of (all_vars m) (eq_names_of m idx ! i) = Some eqn
              \<and> map_of (all_vars m) (vars_dict m ! j) = Some var
              \<and> name = e_code eqn @ v_code var)}"
    unfolding t by simp
qed

lemma pairs_jac_entries:
  "(\<lambda>(name, i, j, v). (i, j)) ` set (jac_entries D m idx exprs) =
     {(e, v). e < length exprs \<and> v < length (vars_dict m)
              \<and> D (exprs ! e) (Sym (vars_dict m ! v)) \<noteq> Num 0}"
proof -
  let ?M = "if length exprs > 0 then jacobian D exprs (map Sym (vars_dict m)) else []"
  have rl: "set (row_list ?M) =
      {(i, j, e). i < length exprs \<and> j < length (vars_dict m)
                  \<and> e = D (exprs ! i) (Sym (vars_dict m ! j)) \<and> e \<noteq> Num 0}"
    unfolding set_row_list_guarded by auto
  have "(\<lambda>(name, i, j, v). (i, j)) ` set (jac_entries D m idx exprs)
      = (\<lambda>(i, j, d). (i, j)) ` set (row_list ?M)"
    unfolding jac_entries_def by (force simp: image_iff)
  also have "\<dots> = {(e, v). e < length exprs \<and> v < length (vars_dict m)
              \<and> D (exprs ! e) (Sym (vars_dict m ! v)) \<noteq> Num 0}"
    unfolding rl by force
  finally show ?thesis .
qed

lemma diag_entries_are_diagonal:
  "\<forall>(name, i, j, v) \<in> set (diag_entries m (algebs m)).
      name = ''gyc'' \<and> i < length (algebs_and_ext m) \<and> j < length (vars_dict m)
      \<and> fst (algebs_and_ext m ! i) = vars_dict m ! j
      \<and> (\<exists>var. (vars_dict m ! j, var) \<in> set (algebs m) \<and> diag_eps var \<noteq> 0
                \<and> v = JConst (diag_eps var))"
proof -
  have "name = ''gyc'' \<and> i < length (algebs_and_ext m) \<and> j < length (vars_dict m)
      \<and> fst (algebs_and_ext m ! i) = vars_dict m ! j
      \<and> (\<exists>var. (vars_dict m ! j, var) \<in> set (algebs m) \<and> diag_eps var \<noteq> 0
                \<and> v = JConst (diag_eps var))"
    if "(name, i, j, v) \<in> set (diag_entries m (algebs m))" for name i j v
  proof -
    from that obtain k var where kv: "(k, var) \<in> set (algebs m)" "diag_eps var \<noteq> 0"
      and n: "name = ''gyc''" and i: "i = first_index (map fst (algebs_and_ext m)) k"
      and j: "j = first_index (vars_dict m) k" and v: "v = JConst (diag_eps var)"
      by (auto simp: diag_entries_def)
    from kv(1) have a: "k \<in> set (map fst (algebs_and_ext m))"
      using keys_algebs[of m] by force
    then have "k \<in> fst ` set (all_vars m)" using keys_algebs_and_ext[of m] by auto
    then have b: "k \<in> set (vars_dict m)" by (simp add: vars_dict_all_vars)
    have "i < length (algebs_and_ext m)" using first_index_less[OF a] i by simp
    moreover have "fst (algebs_and_ext m ! i) = k"
      using nth_first_index[OF a] first_index_less[OF a] i by simp
    moreover have "j < length (vars_dict m)" using first_index_less[OF b] j by simp
    moreover have "vars_dict m ! j = k" using nth_first_index[OF b] j by simp
    ultimately show ?thesis using n kv v by auto
  qed
  then show ?thesis by blast
qed

lemma generate_jacobians_result:
  assumes "generate_equations m = Inr eqs"
  shows "generate_jacobians D m eqs calls
           = Inr (append_all (clear_ijv calls)
                    (jac_entries D m 0 (f_list eqs) @ jac_entries D m 1 (g_list eqs)
                     @ diag_entries m (algebs m)))"
    and "length (f_list eqs) = length (eq_names_of m 0)"
    and "length (g_list eqs) = length (eq_names_of m 1)"
proof -
  let ?vars = "map Sym (vars_dict m)"
  let ?df = "if length (f_list eqs) > 0 then jacobian D (f_list eqs) ?vars else []"
  let ?dg = "if length (g_list eqs) > 0 then jacobian D (g_list eqs) ?vars else []"
  from assms obtain fl gl ss where
    fl: "gen_eqs (class_name m) (inputs_dict m) (states_and_ext m) = Inr fl"
    and gl: "gen_eqs (class_name m) (inputs_dict m) (algebs_and_ext m) = Inr gl"
    and eqs: "eqs = \<lparr>f_list = fl, g_list = gl, s_syms = ss\<rparr>"
    by (auto simp: generate_equations_def split: sum.splits)
  show lf: "length (f_list eqs) = length (eq_names_of m 0)"
    using gen_eqs_length[OF fl] eqs by (simp add: eq_names_of_def)
  show lg: "length (g_list eqs) = length (eq_names_of m 1)"
    using gen_eqs_length[OF gl] eqs by (simp add: eq_names_of_def)
  have sdf: "set (row_list ?df) =
      {(i, j, e). i < length (f_list eqs) \<and> j < length (vars_dict m)
                  \<and> e = D (f_list eqs ! i) (Sym (vars_dict m ! j)) \<and> e \<noteq> Num 0}"
    unfolding set_row_list_guarded by auto
  have sdg: "set (row_list ?dg) =
      {(i, j, e). i < length (g_list eqs) \<and> j < length (vars_dict m)
                  \<and> e = D (g_list eqs ! i) (Sym (vars_dict m ! j)) \<and> e \<noteq> Num 0}"
    unfolding set_row_list_guarded by auto
  have rf: "\<forall>(i, j, e) \<in> set (row_list ?df). i < length (eq_names_of m 0) \<and> j < length (vars_dict m)"
    unfolding sdf using lf by auto
  have rg: "\<forall>(i, j, e) \<in> set (row_list ?dg). i < length (eq_names_of m 1) \<and> j < length (vars_dict m)"
    unfolding sdg using lg by auto
  let ?c0 = "clear_ijv calls"
  let ?F = "jac_entries D m 0 (f_list eqs)"
  let ?G = "jac_entries D m 1 (g_list eqs)"
  have af: "jac_loop m 0 (row_list ?df) ?c0 = Inr (append_all ?c0 ?F)"
    unfolding jac_entries_def by (rule jac_loop_appends[OF rf])
  have ag: "jac_loop m 1 (row_list ?dg) (append_all ?c0 ?F) = Inr (append_all (append_all ?c0 ?F) ?G)"
    unfolding jac_entries_def by (rule jac_loop_appends[OF rg])
  have dl: "diag_loop m (algebs m) (append_all (append_all ?c0 ?F) ?G)
      = Inr (append_all (append_all (append_all ?c0 ?F) ?G) (diag_entries m (algebs m)))"
    by (rule diag_loop_appends[OF keys_algebs])
  show "generate_jacobians D m eqs calls
      = Inr (append_all ?c0 (?F @ ?G @ diag_entries m (algebs m)))"
    unfolding generate_jacobians_def Let_def using af ag dl
    by (simp add: append_all_append)
qed

text \<open>
  C2. For every model whose equations have been generated, Jacobian generation
  succeeds, and the store it leaves holds, under every name, what \<open>clear_ijv\<close> left there
  followed by the triplets appended under that name: those of the differential
  equations, those of the algebraic equations and the \<open>diag_eps\<close> entries. The triplets
  appended for the differential equations are exactly one \<open>(name, row, col, value)\<close> for
  every pair of an equation index \<open>row\<close> (counted within the differential equations) and a
  variable index \<open>col\<close> at which the derivative of the residual by the variable is not the
  expression \<open>0\<close>, with that derivative as the value and \<open>eqn.e_code + var.v_code\<close> of the
  equation's variable and of the variable as the name; so their (row, col) pairs are
  exactly the pairs with a nonzero derivative, and a pair with a structurally zero
  derivative gets no triplet. The same holds for the algebraic equations, with rows
  counted within them. The remaining entries are in \<open>'gyc'\<close>, each at the row and the
  column of one algebraic variable with a nonzero \<open>diag_eps\<close>, which is its value.
\<close>

theorem jacobian_triplets_are_nonzero_derivatives:
  assumes "generate_equations m = Inr eqs"
  shows "\<exists>calls'. generate_jacobians D m eqs calls = Inr calls'
         \<and> (\<forall>name. calls' name = clear_ijv calls name
                @ stored_under name (jac_entries D m 0 (f_list eqs) @ jac_entries D m 1 (g_list eqs)
                                     @ diag_entries m (algebs m)))
         \<and> set (jac_entries D m 0 (f_list eqs)) =
              {(name, i, j, v). i < length (f_list eqs) \<and> j < length (vars_dict m)
                 \<and> D (f_list eqs ! i) (Sym (vars_dict m ! j)) \<noteq> Num 0
                 \<and> v = JFun (D (f_list eqs ! i) (Sym (vars_dict m ! j)))
                 \<and> (\<exists>eqn var. map_of (all_vars m) (eq_names_of m 0 ! i) = Some eqn
                       \<and> map_of (all_vars m) (vars_dict m ! j) = Some var
                       \<and> name = e_code eqn @ v_code var)}
         \<and> set (jac_entries D m 1 (g_list eqs)) =
              {(name, i, j, v). i < length (g_list eqs) \<and> j < length (vars_dict m)
                 \<and> D (g_list eqs ! i) (Sym (vars_dict m ! j)) \<noteq> Num 0
                 \<and> v = JFun (D (g_list eqs ! i) (Sym (vars_dict m ! j)))
                 \<and> (\<exists>eqn var. map_of (all_vars m) (eq_names_of m 1 ! i) = Some eqn
                       \<and> map_of (all_vars m) (vars_dict m ! j) = Some var
                       \<and> name = e_code eqn @ v_code var)}
         \<and> (\<lambda>(name, i, j, v). (i, j)) ` set (jac_entries D m 0 (f_list eqs)) =
              {(e, v). e < length (f_list eqs) \<and> v < length (vars_dict m)
                       \<and> D (f_list eqs ! e) (Sym (vars_dict m ! v)) \<noteq> Num 0}
         \<and> (\<lambda>(name, i, j, v). (i, j)) ` set (jac_entries D m 1 (g_list eqs)) =
              {(e, v). e < length (g_list eqs) \<and> v < length (vars_dict m)
                       \<and> D (g_list eqs ! e) (Sym (vars_dict m ! v)) \<noteq> Num 0}
         \<and> (\<forall>(name, i, j, v) \<in> set (diag_entries m (algebs m)).
              name = ''gyc'' \<and> i < length (algebs_and_ext m) \<and> j < length (vars_dict m)
              \<and> fst (algebs_and_ext m ! i) = vars_dict m ! j
              \<and> (\<exists>var. (vars_dict m ! j, var) \<in> set (algebs m) \<and> diag_eps var \<noteq> 0
                        \<and> v = JConst (diag_eps var)))"
proof -
  note r = generate_jacobians_result(1)[OF assms, of D calls]
    generate_jacobians_result(2)[OF assms] generate_jacobians_result(3)[OF assms]
  let ?all = "jac_entries D m 0 (f_list eqs) @ jac_entries D m 1 (g_list eqs)
              @ diag_entries m (algebs m)"
  have "\<forall>name. append_all (clear_ijv calls) ?all name
      = clear_ijv calls name @ stored_under name ?all"
    by (simp add: append_all_lookup)
  with r(1) have store: "\<exists>calls'. generate_jacobians D m eqs calls = Inr calls'
      \<and> (\<forall>name. calls' name = clear_ijv calls name @ stored_under name ?all)"
    by blast
  show ?thesis
    using store set_jac_entries[OF r(2), of D] set_jac_entries[OF r(3), of D]
      pairs_jac_entries[of D m 0 "f_list eqs"] pairs_jac_entries[of D m 1 "g_list eqs"]
      diag_entries_are_diagonal[of m]
    by (elim exE conjE, intro exI conjI) assumption+
qed

lemma dae_example_views:
  "states_and_ext dae_example = states dae_example"
  "algebs_and_ext dae_example = algebs dae_example"
  "all_vars dae_example = states dae_example @ algebs dae_example"
  "vars_dict dae_example = [''x'', ''y'']"
  "inputs_dict dae_example = [''u'', ''p'', ''x'', ''y'', ''dae_t'']"
  by (simp_all add: states_and_ext_def algebs_and_ext_def all_vars_def vars_dict_def inputs_dict_def
      all_params_names_def all_vars_names_def odict_def dae_example_def)

lemma dae_example_equations:
  "generate_equations dae_example =
     Inr \<lparr>f_list = [Mul (Sym ''p'') (Sym ''y'')], g_list = [Add (Sym ''x'') (Sym ''y'')], s_syms = []\<rparr>"
  unfolding generate_equations_def dae_example_views
  by (simp add: dae_example_def check_expr_symbols_def)

lemma dae_example_entries:
  "jac_entries occurs_diff dae_example 0 [Mul (Sym ''p'') (Sym ''y'')]
     = [(''fy'', 0, 1, JFun (Fn ''Derivative'' (Mul (Sym ''p'') (Sym ''y''))))]"
  "jac_entries occurs_diff dae_example 1 [Add (Sym ''x'') (Sym ''y'')]
     = [(''gx'', 0, 0, JFun (Fn ''Derivative'' (Add (Sym ''x'') (Sym ''y'')))),
        (''gy'', 0, 1, JFun (Fn ''Derivative'' (Add (Sym ''x'') (Sym ''y''))))]"
  "diag_entries dae_example (algebs dae_example) = [(''gyc'', 0, 1, JConst (1 / 1000000))]"
  unfolding jac_entries_def diag_entries_def block_name_def eq_names_of_def dae_example_views
  by (simp_all add: dae_example_def first_index_def row_list_def nonzero_entries_def jacobian_def
      occurs_diff_def)

text \<open>
  In the example the store holds a stale triplet under every name before the call.
\<close>

theorem jacobian_triplets_are_nonzero_derivatives_witness:
  "\<exists>calls'.
     generate_jacobians occurs_diff dae_example
       \<lparr>f_list = [Mul (Sym ''p'') (Sym ''y'')], g_list = [Add (Sym ''x'') (Sym ''y'')], s_syms = []\<rparr>
       (\<lambda>name. [(9, 9, JConst 1)])
     = Inr calls'
     \<and> calls' ''fx'' = []
     \<and> calls' ''fy'' = [(0, 1, JFun (Fn ''Derivative'' (Mul (Sym ''p'') (Sym ''y''))))]
     \<and> calls' ''gx'' = [(0, 0, JFun (Fn ''Derivative'' (Add (Sym ''x'') (Sym ''y''))))]
     \<and> calls' ''gy'' = [(0, 1, JFun (Fn ''Derivative'' (Add (Sym ''x'') (Sym ''y''))))]
     \<and> calls' ''gyc'' = [(0, 1, JConst (1 / 1000000))]
     \<and> calls' ''fxc'' = [] \<and> calls' ''fyc'' = [] \<and> calls' ''gxc'' = []"
proof -
  let ?eqs = "\<lparr>f_list = [Mul (Sym ''p'') (Sym ''y'')], g_list = [Add (Sym ''x'') (Sym ''y'')], s_syms = []\<rparr>"
  have fl: "f_list ?eqs = [Mul (Sym ''p'') (Sym ''y'')]" and gl: "g_list ?eqs = [Add (Sym ''x'') (Sym ''y'')]"
    by simp_all
  from jacobian_triplets_are_nonzero_derivatives[OF dae_example_equations, of occurs_diff
      "\<lambda>name. [(9, 9, JConst 1)]"]
  obtain calls' where c:
    "generate_jacobians occurs_diff dae_example ?eqs (\<lambda>name. [(9, 9, JConst 1)]) = Inr calls'"
    "\<forall>name. calls' name = clear_ijv (\<lambda>name. [(9, 9, JConst 1)]) name
        @ stored_under name (jac_entries occurs_diff dae_example 0 (f_list ?eqs)
                             @ jac_entries occurs_diff dae_example 1 (g_list ?eqs)
                             @ diag_entries dae_example (algebs dae_example))"
    by (elim exE conjE) (rule that; assumption)
  have v: "calls' name = clear_ijv (\<lambda>name. [(9, 9, JConst 1)]) name
        @ stored_under name
            [(''fy'', 0, 1, JFun (Fn ''Derivative'' (Mul (Sym ''p'') (Sym ''y'')))),
             (''gx'', 0, 0, JFun (Fn ''Derivative'' (Add (Sym ''x'') (Sym ''y'')))),
             (''gy'', 0, 1, JFun (Fn ''Derivative'' (Add (Sym ''x'') (Sym ''y'')))),
             (''gyc'', 0, 1, JConst (1 / 1000000))]" for name
    using c(2) unfolding fl gl dae_example_entries by simp
  have "calls' ''fx'' = []"
    "calls' ''fy'' = [(0, 1, JFun (Fn ''Derivative'' (Mul (Sym ''p'') (Sym ''y''))))]"
    "calls' ''gx'' = [(0, 0, JFun (Fn ''Derivative'' (Add (Sym ''x'') (Sym ''y''))))]"
    "calls' ''gy'' = [(0, 1, JFun (Fn ''Derivative'' (Add (Sym ''x'') (Sym ''y''))))]"
    "calls' ''gyc'' = [(0, 1, JConst (1 / 1000000))]"
    "calls' ''fxc'' = []" "calls' ''fyc'' = []" "calls' ''gxc'' = []"
    unfolding v by (simp_all add: clear_ijv_def jac_names_def jac_types_def stored_under_def)
  with c(1) show ?thesis by blast
qed

section \<open>Sparse pattern storage: Model.store_sparse_pattern (core/model.py)\<close>

text \<open>
  Modelled from the spec: the triplet store \<open>JacTriplet\<close> (andes/core/triplet.py, which is
  not among the sources). It "accumulates (global row, global col, numeric value) entries
  ... for one named Jacobian block" and is "cleared and rebuilt every time the system's
  device population or addressing changes": per block name a list of entries, each the
  row addresses, the column addresses and the values of one triplet expanded over the
  devices. \<open>clear_ijv\<close> empties the list of every block name, \<open>append_ijv\<close> appends one
  entry, \<open>merge\<close> appends the entries of another store block by block.
  \<open>jac_full_names\<close> (andes/shared.py) is the list of the block names.
\<close>

type_synonym jac_store = "string \<Rightarrow> (nat list \<times> nat list \<times> real list) list"

definition jac_full_names :: "string list" where
  "jac_full_names = concat (map (\<lambda>jname. map (\<lambda>jtype. jname @ jtype) jac_types) jac_names)"

definition triplets_clear_ijv :: "jac_store \<Rightarrow> jac_store" where
  "triplets_clear_ijv t = (\<lambda>name. if name \<in> set jac_full_names then [] else t name)"

definition triplets_append_ijv ::
  "jac_store \<Rightarrow> string \<Rightarrow> nat list \<Rightarrow> nat list \<Rightarrow> real list \<Rightarrow> jac_store" where
  "triplets_append_ijv t j_full_name ii jj vv = t(j_full_name := t j_full_name @ [(ii, jj, vv)])"

definition triplets_merge :: "jac_store \<Rightarrow> jac_store \<Rightarrow> jac_store" where
  "triplets_merge t other = (\<lambda>name. t name @ other name)"

text \<open>
  A block of the model (andes/core/block.py is not among the sources): its flag
  \<open>j_num\<close>, its \<open>j_numeric\<close> as the effect on its own store, and that store.

  What \<open>store_sparse_pattern\<close> reads of a model at run time: the declaration (for the
  cached variable views), the device count \<open>n\<close>, \<open>in_use\<close>, the flags \<open>address\<close> and \<open>j_num\<close>,
  the address array \<open>a\<close> of every variable (\<open>self.__dict__[name].a\<close>), the generated
  triplets \<open>self.calls\<close>, the store \<open>self.triplets\<close> and the blocks. The model's own
  \<open>j_numeric\<close> (\<open>pass\<close> in the base class) is a parameter of the function: its effect on
  the store.
\<close>

record block =
  blk_j_num :: bool
  blk_j_numeric :: "jac_store \<Rightarrow> jac_store"
  blk_triplets :: jac_store

record runtime =
  decl :: model
  m_n :: nat
  m_in_use :: bool
  flag_address :: bool
  flag_j_num :: bool
  addr :: "string \<rightharpoonup> nat list"
  calls :: ijv
  triplets :: jac_store
  blocks :: "block list"

fun merge_blocks :: "block list \<Rightarrow> jac_store \<Rightarrow> jac_store" where
  "merge_blocks [] t = t"
| "merge_blocks (b # bs) t =
     (if blk_j_num b then merge_blocks bs (triplets_merge t (blk_j_numeric b (blk_triplets b)))
      else merge_blocks bs t)"

text \<open>
  \<open>var_names_list = list(self.cache.all_vars.keys())\<close>; \<open>eq_names\<close> maps \<open>'f'\<close> to its first
  \<open>len(self.cache.states_and_ext)\<close> names and \<open>'g'\<close> to the rest, and is indexed by the
  first letter of the block name. \<open>triplet_addr\<close> is the lookup of the row and column
  address arrays of one triplet (lines 983 to 987), with its IndexError and KeyError.
\<close>

definition var_names_list :: "runtime \<Rightarrow> string list" where
  "var_names_list s = map fst (all_vars (decl s))"

definition eq_names :: "runtime \<Rightarrow> string \<Rightarrow> pyexn + string list" where
  "eq_names s j_full_name =
     (case j_full_name of
        [] \<Rightarrow> Inl IndexError
      | c # cs \<Rightarrow>
          if c = CHR ''f'' then Inr (take (length (states_and_ext (decl s))) (var_names_list s))
          else if c = CHR ''g'' then Inr (drop (length (states_and_ext (decl s))) (var_names_list s))
          else Inl KeyError)"

definition triplet_addr :: "runtime \<Rightarrow> string \<Rightarrow> nat \<Rightarrow> nat \<Rightarrow> pyexn + (nat list \<times> nat list)" where
  "triplet_addr s j_full_name row col =
     (case eq_names s j_full_name of
        Inl err \<Rightarrow> Inl err
      | Inr names \<Rightarrow>
     (case getitem names row of
        Inl err \<Rightarrow> Inl err
      | Inr row_name \<Rightarrow>
     (case getitem (var_names_list s) col of
        Inl err \<Rightarrow> Inl err
      | Inr col_name \<Rightarrow>
     (case addr s row_name of
        None \<Rightarrow> Inl KeyError
      | Some row_idx \<Rightarrow>
     (case addr s col_name of
        None \<Rightarrow> Inl KeyError
      | Some col_idx \<Rightarrow> Inr (row_idx, col_idx))))))"

text \<open>
  The value stored with a triplet: \<open>val * np.ones(self.n)\<close> in a block whose name ends
  with \<open>c\<close> (a TypeError when \<open>val\<close> is a callable), else \<open>np.zeros(self.n)\<close>.
\<close>

definition jac_value :: "nat \<Rightarrow> string \<Rightarrow> jval \<Rightarrow> pyexn + real list" where
  "jac_value n j_full_name val =
     (if j_full_name \<noteq> [] \<and> last j_full_name = CHR ''c''
      then (case val of JConst c \<Rightarrow> Inr (replicate n c) | JFun f \<Rightarrow> Inl TypeError)
      else Inr (replicate n 0))"

text \<open>
  The loop over the triplets of one block name, with the length test that raises
  \<open>ValueError('... non-matching row_idx and col_idx')\<close>, and the loop over the names.
\<close>

fun store_triplets ::
  "runtime \<Rightarrow> string \<Rightarrow> (nat \<times> nat \<times> jval) list \<Rightarrow> jac_store \<Rightarrow> pyexn + jac_store" where
  "store_triplets s j_full_name [] t = Inr t"
| "store_triplets s j_full_name ((row, col, val) # rest) t =
     (case triplet_addr s j_full_name row col of
        Inl err \<Rightarrow> Inl err
      | Inr (row_idx, col_idx) \<Rightarrow>
          if length row_idx \<noteq> length col_idx then Inl ValueError
          else
            (case jac_value (m_n s) j_full_name val of
               Inl err \<Rightarrow> Inl err
             | Inr v \<Rightarrow>
                 store_triplets s j_full_name rest
                   (triplets_append_ijv t j_full_name row_idx col_idx v)))"

fun store_names :: "runtime \<Rightarrow> string list \<Rightarrow> jac_store \<Rightarrow> pyexn + jac_store" where
  "store_names s [] t = Inr t"
| "store_names s (j_full_name # rest) t =
     (case store_triplets s j_full_name (calls s j_full_name) t of
        Inl err \<Rightarrow> Inl err
      | Inr t' \<Rightarrow> store_names s rest t')"

text \<open>
  \<open>store_sparse_pattern\<close>: the store is cleared; the function returns when \<open>n == 0\<close>
  ("do not check \<open>self.in_use\<close> here") and when the address flag is \<open>False\<close>; else the
  user-defined Jacobians of the model and of its blocks are stored (\<open>user_jacobians\<close>) and
  the generated triplets are appended.
\<close>

definition user_jacobians :: "(jac_store \<Rightarrow> jac_store) \<Rightarrow> runtime \<Rightarrow> jac_store" where
  "user_jacobians j_numeric s =
     merge_blocks (blocks s)
       (if flag_j_num s then j_numeric (triplets_clear_ijv (triplets s))
        else triplets_clear_ijv (triplets s))"

definition store_sparse_pattern :: "(jac_store \<Rightarrow> jac_store) \<Rightarrow> runtime \<Rightarrow> pyexn + runtime" where
  "store_sparse_pattern j_numeric s =
     (if m_n s = 0 then Inr (s\<lparr>triplets := triplets_clear_ijv (triplets s)\<rparr>)
      else if \<not> flag_address s then Inr (s\<lparr>triplets := triplets_clear_ijv (triplets s)\<rparr>)
      else
        (case store_names s jac_full_names (user_jacobians j_numeric s) of
           Inl err \<Rightarrow> Inl err
         | Inr t \<Rightarrow> Inr (s\<lparr>triplets := t\<rparr>)))"

text \<open>
  For the statements: the entry a triplet is stored as, whether its lookups and its
  value succeed (\<open>addressable\<close>), and whether its two address arrays have the same
  length.
\<close>

definition stored_entry :: "runtime \<Rightarrow> string \<Rightarrow> nat \<times> nat \<times> jval \<Rightarrow> nat list \<times> nat list \<times> real list" where
  "stored_entry s j_full_name trip =
     (case trip of (row, col, val) \<Rightarrow>
        (case triplet_addr s j_full_name row col of
           Inl err \<Rightarrow> ([], [], [])
         | Inr (row_idx, col_idx) \<Rightarrow>
             (case jac_value (m_n s) j_full_name val of
                Inl err \<Rightarrow> ([], [], [])
              | Inr v \<Rightarrow> (row_idx, col_idx, v))))"

definition addressable :: "runtime \<Rightarrow> string \<Rightarrow> nat \<times> nat \<times> jval \<Rightarrow> bool" where
  "addressable s j_full_name trip =
     (case trip of (row, col, val) \<Rightarrow>
        (case triplet_addr s j_full_name row col of
           Inl err \<Rightarrow> False
         | Inr (row_idx, col_idx) \<Rightarrow>
             (case jac_value (m_n s) j_full_name val of Inl err \<Rightarrow> False | Inr v \<Rightarrow> True)))"

definition lengths_match :: "runtime \<Rightarrow> string \<Rightarrow> nat \<times> nat \<times> jval \<Rightarrow> bool" where
  "lengths_match s j_full_name trip =
     (case trip of (row, col, val) \<Rightarrow>
        (case triplet_addr s j_full_name row col of
           Inl err \<Rightarrow> False
         | Inr (row_idx, col_idx) \<Rightarrow> length row_idx = length col_idx))"

text \<open>
  The example model with two devices: \<open>x\<close> at the addresses 0 and 1, \<open>y\<close> at 2 and 3, one
  generated triplet in \<open>gx\<close> and the \<open>diag_eps\<close> entry in \<open>gyc\<close>.
\<close>

definition rt_example :: runtime where
  "rt_example =
     \<lparr>decl = dae_example, m_n = 2, m_in_use = True, flag_address = True, flag_j_num = False,
      addr = [''x'' \<mapsto> [0, 1], ''y'' \<mapsto> [2, 3]],
      calls = (\<lambda>name. [])(''gx'' := [(0, 0, JFun (Num 1))],
                            ''gyc'' := [(0, 1, JConst (1 / 1000000))]),
      triplets = (\<lambda>name. []),
      blocks = []\<rparr>"

subsection \<open>The length check and the skipped models\<close>

lemma store_triplets_result:
  assumes "\<forall>trip \<in> set trips. addressable s name trip"
  shows "store_triplets s name trips t =
           (if \<forall>trip \<in> set trips. lengths_match s name trip
            then Inr (t(name := t name @ map (stored_entry s name) trips))
            else Inl ValueError)"
  using assms
proof (induction trips arbitrary: t)
  case Nil
  then show ?case by simp
next
  case (Cons trip trips)
  obtain row col val where trip: "trip = (row, col, val)" by (cases trip) auto
  from Cons.prems trip obtain ri ci v where
    a: "triplet_addr s name row col = Inr (ri, ci)" and jv: "jac_value (m_n s) name val = Inr v"
    by (auto simp: addressable_def split: sum.splits)
  have se: "stored_entry s name trip = (ri, ci, v)"
    using a jv trip by (simp add: stored_entry_def)
  have lm: "lengths_match s name trip \<longleftrightarrow> length ri = length ci"
    using a trip by (simp add: lengths_match_def)
  from Cons.prems have rest: "\<forall>trip \<in> set trips. addressable s name trip" by simp
  show ?case
  proof (cases "length ri = length ci")
    case False
    then have "store_triplets s name (trip # trips) t = Inl ValueError"
      using a trip by simp
    then show ?thesis using False lm by simp
  next
    case True
    let ?t1 = "triplets_append_ijv t name ri ci v"
    have "store_triplets s name (trip # trips) t = store_triplets s name trips ?t1"
      using a jv True trip by simp
    also have "\<dots> = (if \<forall>trip \<in> set trips. lengths_match s name trip
            then Inr (?t1(name := ?t1 name @ map (stored_entry s name) trips))
            else Inl ValueError)"
      by (rule Cons.IH[OF rest])
    also have "?t1(name := ?t1 name @ map (stored_entry s name) trips)
        = t(name := t name @ map (stored_entry s name) (trip # trips))"
      using se by (simp add: triplets_append_ijv_def)
    finally show ?thesis using True lm by simp
  qed
qed

lemma store_names_result:
  assumes "distinct names"
      and "\<forall>name \<in> set names. \<forall>trip \<in> set (calls s name). addressable s name trip"
  shows "store_names s names t =
           (if \<forall>name \<in> set names. \<forall>trip \<in> set (calls s name). lengths_match s name trip
            then Inr (\<lambda>name. if name \<in> set names
                               then t name @ map (stored_entry s name) (calls s name)
                               else t name)
            else Inl ValueError)"
  using assms
proof (induction names arbitrary: t)
  case Nil
  then show ?case by simp
next
  case (Cons name names)
  from Cons.prems have fresh: "name \<notin> set names" and dist: "distinct names"
    and a: "\<forall>trip \<in> set (calls s name). addressable s name trip"
    and rest: "\<forall>name \<in> set names. \<forall>trip \<in> set (calls s name). addressable s name trip"
    by auto
  note st = store_triplets_result[OF a, of t]
  show ?case
  proof (cases "\<forall>trip \<in> set (calls s name). lengths_match s name trip")
    case False
    then have "store_triplets s name (calls s name) t = Inl ValueError"
      using st by auto
    then have "store_names s (name # names) t = Inl ValueError"
      by simp
    then show ?thesis using False by auto
  next
    case True
    let ?t1 = "t(name := t name @ map (stored_entry s name) (calls s name))"
    have "store_names s (name # names) t = store_names s names ?t1"
      using st True by simp
    also have "\<dots> = (if \<forall>name \<in> set names. \<forall>trip \<in> set (calls s name). lengths_match s name trip
            then Inr (\<lambda>name. if name \<in> set names
                               then ?t1 name @ map (stored_entry s name) (calls s name)
                               else ?t1 name)
            else Inl ValueError)"
      by (rule Cons.IH[OF dist rest])
    also have "(\<lambda>n. if n \<in> set names
                               then ?t1 n @ map (stored_entry s n) (calls s n)
                               else ?t1 n)
        = (\<lambda>n. if n \<in> set (name # names)
                               then t n @ map (stored_entry s n) (calls s n)
                               else t n)"
      using fresh by (auto simp: fun_eq_iff)
    finally show ?thesis using True by simp
  qed
qed

lemma distinct_jac_full_names: "distinct jac_full_names"
  by (simp add: jac_full_names_def jac_names_def jac_types_def)

lemma store_sparse_pattern_result:
  assumes "m_n s \<noteq> 0" and "flag_address s"
      and "\<forall>name \<in> set jac_full_names. \<forall>trip \<in> set (calls s name). addressable s name trip"
  shows "store_sparse_pattern j_numeric s =
           (if \<forall>name \<in> set jac_full_names. \<forall>trip \<in> set (calls s name). lengths_match s name trip
            then Inr (s\<lparr>triplets :=
                         (\<lambda>name. if name \<in> set jac_full_names
                                  then user_jacobians j_numeric s name
                                       @ map (stored_entry s name) (calls s name)
                                  else user_jacobians j_numeric s name)\<rparr>)
            else Inl ValueError)"
  using assms(1,2)
    store_names_result[OF distinct_jac_full_names assms(3), of "user_jacobians j_numeric s"]
  by (auto simp: store_sparse_pattern_def)

text \<open>
  C5 (amended). For a model with at least one device and its address flag set, all of
  whose triplets refer to equations and variables that have address arrays: if for some
  triplet the row-address array and the column-address array have different lengths,
  \<open>store_sparse_pattern\<close> raises the ValueError; if they have the same length for every
  triplet, no error is raised and every triplet is appended, in order, to the list of
  its block after the user-defined entries.
\<close>

theorem store_sparse_pattern_length_check:
  assumes "m_n s \<noteq> 0" and "flag_address s"
      and "\<forall>name \<in> set jac_full_names. \<forall>trip \<in> set (calls s name). addressable s name trip"
  shows "((\<exists>name \<in> set jac_full_names. \<exists>trip \<in> set (calls s name). \<not> lengths_match s name trip)
            \<longrightarrow> store_sparse_pattern j_numeric s = Inl ValueError)
       \<and> ((\<forall>name \<in> set jac_full_names. \<forall>trip \<in> set (calls s name). lengths_match s name trip)
            \<longrightarrow> store_sparse_pattern j_numeric s =
                  Inr (s\<lparr>triplets :=
                         (\<lambda>name. if name \<in> set jac_full_names
                                  then user_jacobians j_numeric s name
                                       @ map (stored_entry s name) (calls s name)
                                  else user_jacobians j_numeric s name)\<rparr>))"
  using store_sparse_pattern_result[OF assms, of j_numeric] by auto

lemma var_names_list_in_use: "var_names_list (s\<lparr>m_in_use := b\<rparr>) = var_names_list s"
  by (simp add: var_names_list_def)

lemma eq_names_in_use: "eq_names (s\<lparr>m_in_use := b\<rparr>) name = eq_names s name"
  by (cases name) (simp_all add: eq_names_def var_names_list_in_use)

lemma triplet_addr_in_use:
  "triplet_addr (s\<lparr>m_in_use := b\<rparr>) name row col = triplet_addr s name row col"
  by (simp add: triplet_addr_def eq_names_in_use var_names_list_in_use
      split: sum.splits option.splits)

lemma user_jacobians_in_use:
  "user_jacobians j_numeric (s\<lparr>m_in_use := b\<rparr>) = user_jacobians j_numeric s"
  by (simp add: user_jacobians_def)

lemmas in_use_ignored = eq_names_in_use triplet_addr_in_use user_jacobians_in_use

lemma store_triplets_in_use:
  "store_triplets (s\<lparr>m_in_use := b\<rparr>) name trips t = store_triplets s name trips t"
  by (induction trips arbitrary: t) (auto simp: in_use_ignored split: sum.splits)

lemma store_names_in_use:
  "store_names (s\<lparr>m_in_use := b\<rparr>) names t = store_names s names t"
  by (induction names arbitrary: t) (auto simp: store_triplets_in_use split: sum.splits)

text \<open>
  C6 (amended). Assembly is skipped entirely, the store being left as \<open>clear_ijv\<close> made
  it, for every model with zero devices and for every model whose address flag is not
  set, whatever its other flags; \<open>in_use\<close> is never consulted: with \<open>in_use\<close> set to any
  value the function does what it does otherwise.
\<close>

theorem store_sparse_pattern_skips:
  "(m_n s = 0 \<or> \<not> flag_address s \<longrightarrow>
      store_sparse_pattern j_numeric s = Inr (s\<lparr>triplets := triplets_clear_ijv (triplets s)\<rparr>))
   \<and> store_sparse_pattern j_numeric (s\<lparr>m_in_use := b\<rparr>)
       = (case store_sparse_pattern j_numeric s of
            Inl err \<Rightarrow> Inl err
          | Inr s' \<Rightarrow> Inr (s'\<lparr>m_in_use := b\<rparr>))"
  by (auto simp: store_sparse_pattern_def store_names_in_use in_use_ignored split: sum.splits)

lemma set_jac_full_names:
  "set jac_full_names = {''fxc'', ''fx'', ''fyc'', ''fy'', ''gxc'', ''gx'', ''gyc'', ''gy''}"
  by (simp add: jac_full_names_def jac_names_def jac_types_def insert_commute)

lemma rt_example_fields:
  "m_n rt_example = 2" "flag_address rt_example" "decl rt_example = dae_example"
  "addr rt_example = [''x'' \<mapsto> [0, 1], ''y'' \<mapsto> [2, 3]]"
  "blocks rt_example = []" "flag_j_num rt_example = False" "triplets rt_example = (\<lambda>name. [])"
  "calls rt_example = (\<lambda>name. [])(''gx'' := [(0, 0, JFun (Num 1))],
                            ''gyc'' := [(0, 1, JConst (1 / 1000000))])"
  by (simp_all add: rt_example_def)

lemma dae_example_names:
  "map fst (all_vars dae_example) = [''x'', ''y'']"
  "length (states_and_ext dae_example) = 1"
  unfolding dae_example_views by (simp_all add: dae_example_def)

lemma triplet_addr_example:
  assumes "decl s = dae_example" and "addr s ''x'' = Some ax" and "addr s ''y'' = Some ay"
  shows "triplet_addr s ''gx'' 0 0 = Inr (ay, ax)"
    and "triplet_addr s ''gyc'' 0 (Suc 0) = Inr (ay, ay)"
  using assms
  by (simp_all add: triplet_addr_def eq_names_def var_names_list_def dae_example_names
      getitem_def)

lemma rt_example_addressable:
  assumes "decl s = dae_example" and "addr s ''x'' = Some ax" and "addr s ''y'' = Some ay"
      and "calls s = calls rt_example"
  shows "\<forall>name \<in> set jac_full_names. \<forall>trip \<in> set (calls s name). addressable s name trip"
  unfolding set_jac_full_names assms(4) rt_example_fields
  by (simp add: addressable_def triplet_addr_example[OF assms(1,2,3)] jac_value_def)

lemma rt_example_lengths:
  assumes "decl s = dae_example" and "addr s ''x'' = Some ax" and "addr s ''y'' = Some ay"
      and "calls s = calls rt_example"
  shows "(\<forall>name \<in> set jac_full_names. \<forall>trip \<in> set (calls s name). lengths_match s name trip)
         \<longleftrightarrow> length ay = length ax"
  unfolding set_jac_full_names assms(4) rt_example_fields
  by (simp add: lengths_match_def triplet_addr_example[OF assms(1,2,3)])

lemma rt_example_stored:
  assumes "decl s = dae_example" and "addr s ''x'' = Some ax" and "addr s ''y'' = Some ay"
      and "calls s = calls rt_example"
  shows "map (stored_entry s ''gx'') (calls s ''gx'') = [(ay, ax, replicate (m_n s) 0)]"
    and "map (stored_entry s ''gyc'') (calls s ''gyc'') = [(ay, ay, replicate (m_n s) (1 / 1000000))]"
  unfolding assms(4) rt_example_fields
  by (simp_all add: stored_entry_def triplet_addr_example[OF assms(1,2,3)] jac_value_def)

theorem store_sparse_pattern_length_check_witness:
  "(case store_sparse_pattern (\<lambda>t. t) rt_example of
      Inl err \<Rightarrow> None
    | Inr s' \<Rightarrow> Some (triplets s' ''gx'', triplets s' ''gyc'', triplets s' ''fx''))
   = Some ([([2, 3], [0, 1], [0, 0])], [([2, 3], [2, 3], [1 / 1000000, 1 / 1000000])], [])
   \<and> store_sparse_pattern (\<lambda>t. t) (rt_example\<lparr>addr := [''x'' \<mapsto> [0, 1], ''y'' \<mapsto> [2]]\<rparr>)
       = Inl ValueError"
proof -
  let ?bad = "rt_example\<lparr>addr := [''x'' \<mapsto> [0, 1], ''y'' \<mapsto> [2]]\<rparr>"
  have n: "m_n rt_example \<noteq> 0" "flag_address rt_example"
    by (simp_all add: rt_example_fields)
  have ax: "addr rt_example ''x'' = Some [0, 1]" "addr rt_example ''y'' = Some [2, 3]"
    by (simp_all add: rt_example_fields)
  note a = rt_example_addressable[OF rt_example_fields(3) ax refl]
  have l: "\<forall>name \<in> set jac_full_names. \<forall>trip \<in> set (calls rt_example name).
      lengths_match rt_example name trip"
    unfolding rt_example_lengths[OF rt_example_fields(3) ax refl] by simp
  from store_sparse_pattern_length_check[OF n a, of "\<lambda>t. t"] l
  have ok: "store_sparse_pattern (\<lambda>t. t) rt_example =
      Inr (rt_example\<lparr>triplets :=
             (\<lambda>name. if name \<in> set jac_full_names
                      then user_jacobians (\<lambda>t. t) rt_example name
                           @ map (stored_entry rt_example name) (calls rt_example name)
                      else user_jacobians (\<lambda>t. t) rt_example name)\<rparr>)"
    by blast
  have u: "user_jacobians (\<lambda>t. t) rt_example name = []" for name
    by (simp add: user_jacobians_def rt_example_fields triplets_clear_ijv_def)
  have first: "(case store_sparse_pattern (\<lambda>t. t) rt_example of
      Inl err \<Rightarrow> None
    | Inr s' \<Rightarrow> Some (triplets s' ''gx'', triplets s' ''gyc'', triplets s' ''fx''))
   = Some ([([2, 3], [0, 1], [0, 0])], [([2, 3], [2, 3], [1 / 1000000, 1 / 1000000])], [])"
    unfolding ok
    using rt_example_stored[OF rt_example_fields(3) ax refl]
    by (simp add: u set_jac_full_names rt_example_fields numeral_2_eq_2)
  have bn: "m_n ?bad \<noteq> 0" "flag_address ?bad" "decl ?bad = dae_example"
    "addr ?bad ''x'' = Some [0, 1]" "addr ?bad ''y'' = Some [2]" "calls ?bad = calls rt_example"
    by (simp_all add: rt_example_fields)
  note ba = rt_example_addressable[OF bn(3,4,5,6)]
  have bl: "\<exists>name \<in> set jac_full_names. \<exists>trip \<in> set (calls ?bad name). \<not> lengths_match ?bad name trip"
    using rt_example_lengths[OF bn(3,4,5,6)] by simp
  from store_sparse_pattern_length_check[OF bn(1,2) ba, of "\<lambda>t. t"] bl
  have second: "store_sparse_pattern (\<lambda>t. t) ?bad = Inl ValueError"
    by blast
  show ?thesis using first second by (rule conjI)
qed

text \<open>
  With zero devices every address array is empty, so all triplets have matching
  lengths; none of them is appended, because the function has returned before the loop.
\<close>

theorem zero_devices_triplets_not_appended:
  "calls (rt_example\<lparr>m_n := 0, addr := [''x'' \<mapsto> [], ''y'' \<mapsto> []]\<rparr>) ''gx'' = [(0, 0, JFun (Num 1))]
   \<and> lengths_match (rt_example\<lparr>m_n := 0, addr := [''x'' \<mapsto> [], ''y'' \<mapsto> []]\<rparr>)
         ''gx'' (0, 0, JFun (Num 1))
   \<and> lengths_match (rt_example\<lparr>m_n := 0, addr := [''x'' \<mapsto> [], ''y'' \<mapsto> []]\<rparr>)
         ''gyc'' (0, 1, JConst (1 / 1000000))
   \<and> (case store_sparse_pattern (\<lambda>t. t) (rt_example\<lparr>m_n := 0, addr := [''x'' \<mapsto> [], ''y'' \<mapsto> []]\<rparr>) of
        Inl err \<Rightarrow> None
      | Inr s' \<Rightarrow> Some (triplets s' ''gx'', triplets s' ''gyc''))
      = Some ([], [])"
proof -
  let ?s = "rt_example\<lparr>m_n := 0, addr := [''x'' \<mapsto> [], ''y'' \<mapsto> []]\<rparr>"
  have f: "decl ?s = dae_example" "addr ?s ''x'' = Some []" "addr ?s ''y'' = Some []"
    by (simp_all add: rt_example_fields)
  note t = triplet_addr_example[OF f]
  have "calls ?s ''gx'' = [(0, 0, JFun (Num 1))]"
    by (simp add: rt_example_fields)
  moreover have "lengths_match ?s ''gx'' (0, 0, JFun (Num 1))"
    using t(1) by (simp add: lengths_match_def)
  moreover have "lengths_match ?s ''gyc'' (0, 1, JConst (1 / 1000000))"
    using t(2) by (simp add: lengths_match_def)
  moreover have "(case store_sparse_pattern (\<lambda>t. t) ?s of
        Inl err \<Rightarrow> None
      | Inr s' \<Rightarrow> Some (triplets s' ''gx'', triplets s' ''gyc'')) = Some ([], [])"
    by (simp add: store_sparse_pattern_def triplets_clear_ijv_def set_jac_full_names)
  ultimately show ?thesis by (intro conjI)
qed

text \<open>
  A model marked not-in-use that has devices and addresses is assembled: its triplets
  are appended.
\<close>

theorem not_in_use_model_is_assembled:
  "m_in_use (rt_example\<lparr>m_in_use := False\<rparr>) = False
   \<and> (case store_sparse_pattern (\<lambda>t. t) (rt_example\<lparr>m_in_use := False\<rparr>) of
        Inl err \<Rightarrow> None
      | Inr s' \<Rightarrow> Some (triplets s' ''gx'', triplets s' ''gyc''))
      = Some ([([2, 3], [0, 1], [0, 0])], [([2, 3], [2, 3], [1 / 1000000, 1 / 1000000])])"
proof -
  let ?s = "rt_example\<lparr>m_in_use := False\<rparr>"
  have f: "m_n ?s \<noteq> 0" "flag_address ?s" "decl ?s = dae_example"
    "addr ?s ''x'' = Some [0, 1]" "addr ?s ''y'' = Some [2, 3]" "calls ?s = calls rt_example"
    by (simp_all add: rt_example_fields)
  note a = rt_example_addressable[OF f(3,4,5,6)]
  have l: "\<forall>name \<in> set jac_full_names. \<forall>trip \<in> set (calls ?s name). lengths_match ?s name trip"
    unfolding rt_example_lengths[OF f(3,4,5,6)] by simp
  have ok: "store_sparse_pattern (\<lambda>t. t) ?s =
      Inr (?s\<lparr>triplets :=
             (\<lambda>name. if name \<in> set jac_full_names
                      then user_jacobians (\<lambda>t. t) ?s name
                           @ map (stored_entry ?s name) (calls ?s name)
                      else user_jacobians (\<lambda>t. t) ?s name)\<rparr>)"
    using store_sparse_pattern_result[OF f(1,2) a, of "\<lambda>t. t"] l by simp
  have u: "user_jacobians (\<lambda>t. t) ?s name = []" for name
    by (simp add: user_jacobians_def rt_example_fields triplets_clear_ijv_def)
  have "(case store_sparse_pattern (\<lambda>t. t) ?s of
        Inl err \<Rightarrow> None
      | Inr s' \<Rightarrow> Some (triplets s' ''gx'', triplets s' ''gyc''))
      = Some ([([2, 3], [0, 1], [0, 0])], [([2, 3], [2, 3], [1 / 1000000, 1 / 1000000])])"
    unfolding ok
    using rt_example_stored[OF f(3,4,5,6)]
    by (simp add: u set_jac_full_names rt_example_fields numeral_2_eq_2)
  then show ?thesis by simp
qed

theorem store_sparse_pattern_skips_witness:
  "store_sparse_pattern (\<lambda>t. t) (rt_example\<lparr>m_n := 0, m_in_use := False\<rparr>)
     = Inr (rt_example\<lparr>m_n := 0, m_in_use := False, triplets := triplets_clear_ijv (\<lambda>name. [])\<rparr>)
   \<and> store_sparse_pattern (\<lambda>t. t) (rt_example\<lparr>flag_address := False\<rparr>)
     = Inr (rt_example\<lparr>flag_address := False, triplets := triplets_clear_ijv (\<lambda>name. [])\<rparr>)"
proof -
  have a: "m_n (rt_example\<lparr>m_n := 0, m_in_use := False\<rparr>) = 0
        \<or> \<not> flag_address (rt_example\<lparr>m_n := 0, m_in_use := False\<rparr>)"
    by simp
  have b: "m_n (rt_example\<lparr>flag_address := False\<rparr>) = 0
        \<or> \<not> flag_address (rt_example\<lparr>flag_address := False\<rparr>)"
    by simp
  from store_sparse_pattern_skips[of "rt_example\<lparr>m_n := 0, m_in_use := False\<rparr>" "\<lambda>t. t"] a
    store_sparse_pattern_skips[of "rt_example\<lparr>flag_address := False\<rparr>" "\<lambda>t. t"] b
  show ?thesis by (simp add: rt_example_fields)
qed

section \<open>Service resolution and initialization: Model.s_update, Model.init (core/model.py)\<close>

text \<open>
  A value of a parameter, service, variable or config option at run time is a Python
  scalar or a numpy array. The numbers are kept as the reals they denote: these two
  functions store and copy values and multiply a scalar by \<open>np.ones(self.n)\<close>, which
  changes no number; all other arithmetic is inside the compiled functions, which are
  inputs of the model. The inputs of the compiled functions are the dict that
  \<open>get_inputs\<close> returns. A compiled function may raise; an entry of \<open>s_lambdify\<close> or
  \<open>init_lambdify\<close> is a callable or a plain value (\<open>callable(func)\<close>).
\<close>

datatype npval = Scalar real | Array "real list"

type_synonym inputs = "string \<rightharpoonup> npval"

datatype pyfun = Callable "inputs \<Rightarrow> pyexn + npval" | NotCallable npval

text \<open>
  What \<open>s_update\<close> and \<open>init\<close> read and write of a model: \<open>n\<close>, \<open>in_use\<close>, the flags \<open>nr_iter\<close>
  and \<open>initialized\<close>; the numeric parameters, the services in declaration order (value
  \<open>v\<close> and the optional \<open>v_numeric\<close>), the other inputs (external and operational
  services, discrete flags), the variables in declaration order (whether \<open>v_str\<close> is set,
  and the value array \<open>v\<close>), the config values and \<open>dae.t\<close>; \<open>calls.s_lambdify\<close> (which
  may be \<open>None\<close>) and \<open>calls.init_lambdify\<close>.

  The methods a subclass or another class supplies are parameters: \<open>inverse()\<close> of the
  time-constant services, \<open>s_numeric\<close>, \<open>init_iter\<close> (it calls the external Newton-Krylov
  solver) and \<open>v_numeric\<close>.
\<close>

record service =
  s_v :: npval
  s_v_numeric :: "(inputs \<Rightarrow> pyexn + npval) option"

record variable =
  has_v_str :: bool
  var_v :: "real list"

record mstate =
  st_n :: nat
  st_in_use :: bool
  st_nr_iter :: bool
  st_initialized :: bool
  st_num_params :: "(string \<times> npval) list"
  st_services :: "(string \<times> service) list"
  st_others :: "(string \<times> npval) list"
  st_vars :: "(string \<times> variable) list"
  st_config :: "(string \<times> npval) list"
  st_dae_t :: real
  st_s_lambdify :: "(string \<times> pyfun) list option"
  st_init_lambdify :: "(string \<times> pyfun) list"

record hooks =
  h_tc_inverse :: "mstate \<Rightarrow> pyexn + mstate"
  h_s_numeric :: "mstate \<Rightarrow> pyexn + mstate"
  h_init_iter :: "mstate \<Rightarrow> pyexn + mstate"
  h_v_numeric :: "mstate \<Rightarrow> pyexn + mstate"

text \<open>
  \<open>get_inputs(refresh=True)\<close>: \<open>refresh_inputs\<close> assigns, in this order, the numeric
  parameters, the services, the other service kinds and discrete flags, the variables
  and the config values; \<open>dae_t\<close> is assigned last. A later assignment to the same key
  replaces an earlier one.
\<close>

definition get_inputs :: "mstate \<Rightarrow> inputs" where
  "get_inputs s =
     (fold (\<lambda>(key, val) d. d(key \<mapsto> val))
        (st_num_params s
         @ map (\<lambda>(name, svc). (name, s_v svc)) (st_services s)
         @ st_others s
         @ map (\<lambda>(name, var). (name, Array (var_v var))) (st_vars s)
         @ st_config s)
        Map.empty)(''dae_t'' \<mapsto> Scalar (st_dae_t s))"

text \<open>
  A \<open>for\<close> loop over the positions of an OrderedDict whose body may raise: the first
  exception ends the loop.
\<close>

fun s_iter :: "(nat \<Rightarrow> mstate \<Rightarrow> pyexn + mstate) \<Rightarrow> nat list \<Rightarrow> mstate \<Rightarrow> pyexn + mstate" where
  "s_iter step [] s = Inr s"
| "s_iter step (i # rest) s =
     (case step i s of Inl err \<Rightarrow> Inl err | Inr s' \<Rightarrow> s_iter step rest s')"

text \<open>
  \<open>s_update\<close>. Nothing is done when \<open>n == 0\<close> or \<open>in_use\<close> is \<open>False\<close>. When \<open>s_lambdify\<close> is not
  \<open>None\<close> and not empty, every service in turn gets the value of its entry (called on
  the refreshed inputs when callable; a missing entry is a KeyError), and a value that
  is not an array is multiplied by \<open>np.ones(self.n)\<close>. Then every service with a callable
  \<open>v_numeric\<close> gets its result, as it is. Then the time constants are inverted and
  \<open>s_numeric\<close> is called.
\<close>

definition call_or_value :: "pyfun \<Rightarrow> mstate \<Rightarrow> pyexn + npval" where
  "call_or_value func s =
     (case func of Callable f \<Rightarrow> f (get_inputs s) | NotCallable c \<Rightarrow> Inr c)"

definition eval_service :: "(string \<times> pyfun) list \<Rightarrow> mstate \<Rightarrow> string \<Rightarrow> pyexn + npval" where
  "eval_service lam s name =
     (case map_of lam name of
        None \<Rightarrow> Inl KeyError
      | Some func \<Rightarrow> call_or_value func s)"

definition to_device_array :: "nat \<Rightarrow> npval \<Rightarrow> npval" where
  "to_device_array n val = (case val of Scalar c \<Rightarrow> Array (replicate n c) | Array xs \<Rightarrow> Array xs)"

definition set_service_v :: "mstate \<Rightarrow> nat \<Rightarrow> npval \<Rightarrow> mstate" where
  "set_service_v s i val =
     s\<lparr>st_services := (st_services s)[i := (fst (st_services s ! i), (snd (st_services s ! i))\<lparr>s_v := val\<rparr>)]\<rparr>"

definition s_lambdify_step :: "(string \<times> pyfun) list \<Rightarrow> nat \<Rightarrow> mstate \<Rightarrow> pyexn + mstate" where
  "s_lambdify_step lam i s =
     (case eval_service lam s (fst (st_services s ! i)) of
        Inl err \<Rightarrow> Inl err
      | Inr val \<Rightarrow> Inr (set_service_v s i (to_device_array (st_n s) val)))"

definition v_numeric_step :: "nat \<Rightarrow> mstate \<Rightarrow> pyexn + mstate" where
  "v_numeric_step i s =
     (case s_v_numeric (snd (st_services s ! i)) of
        None \<Rightarrow> Inr s
      | Some func \<Rightarrow>
          (case func (get_inputs s) of
             Inl err \<Rightarrow> Inl err
           | Inr val \<Rightarrow> Inr (set_service_v s i val)))"

definition s_update :: "hooks \<Rightarrow> mstate \<Rightarrow> pyexn + mstate" where
  "s_update H s =
     (if st_n s = 0 \<or> \<not> st_in_use s then Inr s
      else
        (case (case st_s_lambdify s of
                 None \<Rightarrow> Inr s
               | Some lam \<Rightarrow>
                   if length lam = 0 then Inr s
                   else s_iter (s_lambdify_step lam) [0..<length (st_services s)] s) of
           Inl err \<Rightarrow> Inl err
         | Inr s1 \<Rightarrow>
        (case s_iter v_numeric_step [0..<length (st_services s1)] s1 of
           Inl err \<Rightarrow> Inl err
         | Inr s2 \<Rightarrow>
        (case h_tc_inverse H s2 of
           Inl err \<Rightarrow> Inl err
         | Inr s3 \<Rightarrow> h_s_numeric H s3))))"

text \<open>
  \<open>init\<close>. After \<open>s_update\<close>, every variable in declaration order that has a \<open>v_str\<close> is
  assigned in place (\<open>instance.v[:] = ...\<close>, which broadcasts a scalar and raises a
  ValueError for an array of another shape) the result of its initializer; for a
  callable initializer the call and the assignment stand in \<open>try: ... except
  ValueError: pass\<close>, so a ValueError leaves the state as it is and any other exception
  propagates. Then \<open>init_iter\<close> when the flag \<open>nr_iter\<close> is set, then \<open>v_numeric\<close>, then the
  flag \<open>initialized\<close> is set.
\<close>

definition assign_inplace :: "real list \<Rightarrow> npval \<Rightarrow> pyexn + real list" where
  "assign_inplace target val =
     (case val of
        Scalar c \<Rightarrow> Inr (replicate (length target) c)
      | Array xs \<Rightarrow> np_assign_all target xs)"

definition set_var_v :: "mstate \<Rightarrow> nat \<Rightarrow> real list \<Rightarrow> mstate" where
  "set_var_v s i xs =
     s\<lparr>st_vars := (st_vars s)[i := (fst (st_vars s ! i), (snd (st_vars s ! i))\<lparr>var_v := xs\<rparr>)]\<rparr>"

definition init_step :: "nat \<Rightarrow> mstate \<Rightarrow> pyexn + mstate" where
  "init_step i s =
     (let name = fst (st_vars s ! i); inst = snd (st_vars s ! i)
      in if \<not> has_v_str inst then Inr s
         else
           (case map_of (st_init_lambdify s) name of
              None \<Rightarrow> Inl KeyError
            | Some (Callable init_fun) \<Rightarrow>
                (case (case init_fun (get_inputs s) of
                         Inl err \<Rightarrow> Inl err
                       | Inr val \<Rightarrow> assign_inplace (var_v inst) val) of
                   Inl err \<Rightarrow> if err = ValueError then Inr s else Inl err
                 | Inr xs \<Rightarrow> Inr (set_var_v s i xs))
            | Some (NotCallable c) \<Rightarrow>
                (case assign_inplace (var_v inst) c of
                   Inl err \<Rightarrow> Inl err
                 | Inr xs \<Rightarrow> Inr (set_var_v s i xs))))"

definition init :: "hooks \<Rightarrow> mstate \<Rightarrow> pyexn + mstate" where
  "init H s =
     (case s_update H s of
        Inl err \<Rightarrow> Inl err
      | Inr s1 \<Rightarrow>
     (case s_iter init_step [0..<length (st_vars s1)] s1 of
        Inl err \<Rightarrow> Inl err
      | Inr s2 \<Rightarrow>
     (case (if st_nr_iter s2 then h_init_iter H s2 else Inr s2) of
        Inl err \<Rightarrow> Inl err
      | Inr s3 \<Rightarrow>
     (case h_v_numeric H s3 of
        Inl err \<Rightarrow> Inl err
      | Inr s4 \<Rightarrow> Inr (s4\<lparr>st_initialized := True\<rparr>)))))"

text \<open>
  For the proofs: what a loop step leaves alone. \<open>same_services\<close>: the device count and
  the names and \<open>v_numeric\<close> of the services; \<open>only_service j\<close>: also every service but the
  \<open>j\<close>-th. \<open>same_vars\<close> and \<open>only_var\<close> are the same for the variables.
\<close>

definition same_services :: "mstate \<Rightarrow> mstate \<Rightarrow> bool" where
  "same_services s s' \<longleftrightarrow>
     st_n s' = st_n s \<and> length (st_services s') = length (st_services s)
     \<and> (\<forall>k < length (st_services s).
           fst (st_services s' ! k) = fst (st_services s ! k)
           \<and> s_v_numeric (snd (st_services s' ! k)) = s_v_numeric (snd (st_services s ! k)))"

definition only_service :: "nat \<Rightarrow> mstate \<Rightarrow> mstate \<Rightarrow> bool" where
  "only_service j s s' \<longleftrightarrow>
     same_services s s' \<and> (\<forall>k. k \<noteq> j \<longrightarrow> st_services s' ! k = st_services s ! k)"


text \<open>
  For the statements. \<open>step_tolerant s i\<close>: the initializer of the \<open>i\<close>-th variable, on
  the inputs of the state \<open>s\<close>, returns a value or raises a ValueError (a plain value
  can be assigned). \<open>pass_tolerant\<close>: this holds for each variable at the state in which
  the sequential pass reaches it. \<open>initializer_raises s i\<close>: the exception, if any, that
  the statement \<open>instance.v[:] = init_fun(**kwargs)\<close> under \<open>try\<close> raises for the callable
  initializer of the \<open>i\<close>-th variable on the inputs of \<open>s\<close>, in the call or in the
  assignment. \<open>initializer_assigns s i\<close>: the array that the \<open>i\<close>-th variable is assigned
  when its initializer, callable or not, raises nothing.
\<close>

definition step_tolerant :: "mstate \<Rightarrow> nat \<Rightarrow> bool" where
  "step_tolerant s i =
     (\<not> has_v_str (snd (st_vars s ! i)) \<or>
      (case map_of (st_init_lambdify s) (fst (st_vars s ! i)) of
         None \<Rightarrow> False
       | Some (Callable f) \<Rightarrow>
           (case f (get_inputs s) of Inl err \<Rightarrow> err = ValueError | Inr val \<Rightarrow> True)
       | Some (NotCallable c) \<Rightarrow>
           (case assign_inplace (var_v (snd (st_vars s ! i))) c of
              Inl err \<Rightarrow> False
            | Inr xs \<Rightarrow> True)))"

fun pass_tolerant :: "nat list \<Rightarrow> mstate \<Rightarrow> bool" where
  "pass_tolerant [] s = True"
| "pass_tolerant (i # rest) s =
     (step_tolerant s i \<and>
      (case init_step i s of Inl err \<Rightarrow> True | Inr s' \<Rightarrow> pass_tolerant rest s'))"

definition initializer_raises :: "mstate \<Rightarrow> nat \<Rightarrow> pyexn option" where
  "initializer_raises s i =
     (if \<not> has_v_str (snd (st_vars s ! i)) then None
      else
        (case map_of (st_init_lambdify s) (fst (st_vars s ! i)) of
           Some (Callable f) \<Rightarrow>
             (case f (get_inputs s) of
                Inl err \<Rightarrow> Some err
              | Inr val \<Rightarrow>
                  (case assign_inplace (var_v (snd (st_vars s ! i))) val of
                     Inl err \<Rightarrow> Some err
                   | Inr xs \<Rightarrow> None))
         | _ \<Rightarrow> None))"

definition initializer_assigns :: "mstate \<Rightarrow> nat \<Rightarrow> real list option" where
  "initializer_assigns s i =
     (if \<not> has_v_str (snd (st_vars s ! i)) then None
      else
        (case map_of (st_init_lambdify s) (fst (st_vars s ! i)) of
           None \<Rightarrow> None
         | Some (Callable f) \<Rightarrow>
             (case f (get_inputs s) of
                Inl err \<Rightarrow> None
              | Inr val \<Rightarrow>
                  (case assign_inplace (var_v (snd (st_vars s ! i))) val of
                     Inl err \<Rightarrow> None
                   | Inr xs \<Rightarrow> Some xs))
         | Some (NotCallable c) \<Rightarrow>
             (case assign_inplace (var_v (snd (st_vars s ! i))) c of
                Inl err \<Rightarrow> None
              | Inr xs \<Rightarrow> Some xs)))"

definition same_vars :: "mstate \<Rightarrow> mstate \<Rightarrow> bool" where
  "same_vars s s' \<longleftrightarrow>
     st_init_lambdify s' = st_init_lambdify s \<and> length (st_vars s') = length (st_vars s)
     \<and> (\<forall>k < length (st_vars s).
           fst (st_vars s' ! k) = fst (st_vars s ! k)
           \<and> has_v_str (snd (st_vars s' ! k)) = has_v_str (snd (st_vars s ! k)))"

definition only_var :: "nat \<Rightarrow> mstate \<Rightarrow> mstate \<Rightarrow> bool" where
  "only_var j s s' \<longleftrightarrow> same_vars s s' \<and> (\<forall>k. k \<noteq> j \<longrightarrow> st_vars s' ! k = st_vars s ! k)"


text \<open>
  An example: the methods of the base class (all \<open>pass\<close>, no time constants); two
  devices; a service \<open>k\<close> whose expression is the scalar 3 and a service \<open>w = 2 k\<close>; a
  variable \<open>x\<close> whose initializer returns three values for the two devices, and a variable
  \<open>y\<close> initialized to \<open>k\<close>; an initializer \<open>1 / c\<close> for the config value \<open>c = 0\<close>. Also a
  \<open>v_numeric\<close> that returns the scalar 5, and the methods of a subclass whose \<open>s_numeric\<close>
  assigns the scalar 9 to the first service.
\<close>

definition base_hooks :: hooks where
  "base_hooks = \<lparr>h_tc_inverse = Inr, h_s_numeric = Inr, h_init_iter = Inr, h_v_numeric = Inr\<rparr>"

definition five_fun :: "inputs \<Rightarrow> pyexn + npval" where
  "five_fun inp = Inr (Scalar 5)"

definition k_fun :: "inputs \<Rightarrow> pyexn + npval" where
  "k_fun inp = Inr (Scalar 3)"

definition w_fun :: "inputs \<Rightarrow> pyexn + npval" where
  "w_fun inp =
     (case inp ''k'' of
        Some (Array xs) \<Rightarrow> Inr (Array (map (\<lambda>x. 2 * x) xs))
      | Some (Scalar c) \<Rightarrow> Inr (Scalar (2 * c))
      | None \<Rightarrow> Inl TypeError)"

definition x_init :: "inputs \<Rightarrow> pyexn + npval" where
  "x_init inp = Inr (Array [1, 2, 3])"

definition inv_c_init :: "inputs \<Rightarrow> pyexn + npval" where
  "inv_c_init inp =
     (case inp ''c'' of
        Some (Scalar c) \<Rightarrow> if c = 0 then Inl ZeroDivisionError else Inr (Scalar (1 / c))
      | Some (Array xs) \<Rightarrow> Inr (Array (map (\<lambda>x. 1 / x) xs))
      | None \<Rightarrow> Inl TypeError)"

definition y_init :: "inputs \<Rightarrow> pyexn + npval" where
  "y_init inp = (case inp ''k'' of Some val \<Rightarrow> Inr val | None \<Rightarrow> Inl TypeError)"

definition nine_hooks :: hooks where
  "nine_hooks =
     base_hooks\<lparr>h_s_numeric :=
       (\<lambda>t. Inr (t\<lparr>st_services := (st_services t)[0 := (fst (st_services t ! 0),
                                                         (snd (st_services t ! 0))\<lparr>s_v := Scalar 9\<rparr>)]\<rparr>))\<rparr>"

definition svc_example :: mstate where
  "svc_example =
     \<lparr>st_n = 2, st_in_use = True, st_nr_iter = False, st_initialized = False,
      st_num_params = [(''p'', Array [1, 2])],
      st_services = [(''k'', \<lparr>s_v = Array [0, 0], s_v_numeric = None\<rparr>),
                     (''w'', \<lparr>s_v = Array [0, 0], s_v_numeric = None\<rparr>)],
      st_others = [],
      st_vars = [(''x'', \<lparr>has_v_str = True, var_v = [7, 7]\<rparr>),
                 (''y'', \<lparr>has_v_str = True, var_v = [0, 0]\<rparr>)],
      st_config = [(''c'', Scalar 0)],
      st_dae_t = 0,
      st_s_lambdify = Some [(''k'', Callable k_fun), (''w'', Callable w_fun)],
      st_init_lambdify = [(''x'', Callable x_init), (''y'', Callable y_init)]\<rparr>"

text \<open>
  The example after service resolution.
\<close>

definition resolved_example :: mstate where
  "resolved_example =
     svc_example\<lparr>st_services := [(''k'', \<lparr>s_v = Array [3, 3], s_v_numeric = None\<rparr>),
                                  (''w'', \<lparr>s_v = Array [6, 6], s_v_numeric = None\<rparr>)]\<rparr>"

subsection \<open>Broadcast of scalar services, tolerance of the initializer pass\<close>

lemma same_services_refl: "same_services s s"
  by (simp add: same_services_def)

lemma same_services_trans: "same_services s s1 \<Longrightarrow> same_services s1 s2 \<Longrightarrow> same_services s s2"
  by (simp add: same_services_def)

lemma s_iter_append:
  "s_iter step (xs @ ys) s =
     (case s_iter step xs s of Inl err \<Rightarrow> Inl err | Inr s1 \<Rightarrow> s_iter step ys s1)"
  by (induction xs arbitrary: s) (auto split: sum.splits)

lemma s_iter_split:
  assumes "i < n" and "s_iter step [0..<n] s = Inr s'"
  shows "\<exists>s_i s_j. s_iter step [0..<i] s = Inr s_i \<and> step i s_i = Inr s_j
           \<and> s_iter step [Suc i..<n] s_j = Inr s'"
proof -
  have "[0..<n] = [0..<i] @ i # [Suc i..<n]"
    using assms(1) by (metis le_add1 le_add_same_cancel1 less_imp_add_positive upt_add_eq_append upt_conv_Cons)
  then have "s_iter step ([0..<i] @ i # [Suc i..<n]) s = Inr s'"
    using assms(2) by simp
  then show ?thesis
    by (auto simp: s_iter_append split: sum.splits)
qed

lemma set_service_v_only:
  "only_service j s (set_service_v s j val)"
proof -
  let ?xs = "st_services s"
  let ?ys = "?xs[j := (fst (?xs ! j), (snd (?xs ! j))\<lparr>s_v := val\<rparr>)]"
  have a: "fst (?ys ! k) = fst (?xs ! k) \<and> s_v_numeric (snd (?ys ! k)) = s_v_numeric (snd (?xs ! k))"
    if "k < length ?xs" for k
    using that by (cases "k = j") simp_all
  have b: "?ys ! k = ?xs ! k" if "k \<noteq> j" for k
    using that by simp
  show ?thesis
    unfolding only_service_def same_services_def set_service_v_def
    using a b by simp
qed

lemma s_lambdify_step_only:
  "s_lambdify_step lam j s = Inr s' \<Longrightarrow> only_service j s s'"
  using set_service_v_only by (auto simp: s_lambdify_step_def split: sum.splits)

lemma v_numeric_step_only:
  "v_numeric_step j s = Inr s' \<Longrightarrow> only_service j s s'"
  using set_service_v_only
  by (auto simp: v_numeric_step_def only_service_def same_services_refl split: sum.splits option.splits)

lemma s_iter_only:
  assumes "\<And>j s s'. step j s = Inr s' \<Longrightarrow> only_service j s s'"
      and "s_iter step js s = Inr s'"
  shows "same_services s s' \<and> (\<forall>k. k \<notin> set js \<longrightarrow> st_services s' ! k = st_services s ! k)"
  using assms(2)
proof (induction js arbitrary: s)
  case Nil
  then show ?case by (simp add: same_services_refl)
next
  case (Cons j js)
  from Cons.prems obtain s1 where s1: "step j s = Inr s1" and r: "s_iter step js s1 = Inr s'"
    by (auto split: sum.splits)
  from assms(1)[OF s1] have o: "only_service j s s1" .
  from Cons.IH[OF r] have ih: "same_services s1 s'"
    "\<forall>k. k \<notin> set js \<longrightarrow> st_services s' ! k = st_services s1 ! k" by auto
  have "same_services s s'"
    using o ih(1) same_services_trans by (auto simp: only_service_def)
  moreover have "\<forall>k. k \<notin> set (j # js) \<longrightarrow> st_services s' ! k = st_services s ! k"
    using o ih(2) by (auto simp: only_service_def)
  ultimately show ?case by simp
qed

lemma s_iter_upt_keeps:
  assumes "\<And>j s s'. step j s = Inr s' \<Longrightarrow> only_service j s s'"
      and "s_iter step [a..<b] s = Inr s'" and "i < a \<or> b \<le> i"
  shows "same_services s s' \<and> st_services s' ! i = st_services s ! i"
  using s_iter_only[of step "[a..<b]" s s', OF assms(1) assms(2)] assms(3) by auto

text \<open>
  C9 (amended). For a model with \<open>n > 0\<close> devices that is in use and has compiled
  service functions: after a service resolution that raised nothing, every service
  whose value is not reassigned by the later stages of \<open>s_update\<close> (it has no \<open>v_numeric\<close>,
  and neither \<open>inverse()\<close> of the time constants nor \<open>s_numeric\<close> changes it) holds the
  value its entry evaluated to, on the inputs of the moment the loop reached it, made an
  array: a scalar is broadcast to a vector of length \<open>n\<close> with every component equal to
  the scalar, an array is kept unchanged.
\<close>

theorem s_update_broadcasts_scalars:
  assumes "st_n s \<noteq> 0" and "st_in_use s"
      and "st_s_lambdify s = Some lam" and "lam \<noteq> []"
      and "\<forall>t t'. h_tc_inverse H t = Inr t' \<longrightarrow> st_services t' ! i = st_services t ! i"
      and "\<forall>t t'. h_s_numeric H t = Inr t' \<longrightarrow> st_services t' ! i = st_services t ! i"
      and "s_update H s = Inr s'"
      and "i < length (st_services s)"
      and "s_v_numeric (snd (st_services s ! i)) = None"
  shows "\<exists>s_i val. s_iter (s_lambdify_step lam) [0..<i] s = Inr s_i
           \<and> eval_service lam s_i (fst (st_services s ! i)) = Inr val
           \<and> s_v (snd (st_services s' ! i)) = to_device_array (st_n s) val
           \<and> (\<forall>c. val = Scalar c \<longrightarrow> s_v (snd (st_services s' ! i)) = Array (replicate (st_n s) c))
           \<and> (\<forall>xs. val = Array xs \<longrightarrow> s_v (snd (st_services s' ! i)) = Array xs)"
proof -
  let ?N = "length (st_services s)"
  from assms(1,2,3,4,7) obtain s1 s2 s3 where
    p1: "s_iter (s_lambdify_step lam) [0..<?N] s = Inr s1"
    and p2: "s_iter v_numeric_step [0..<length (st_services s1)] s1 = Inr s2"
    and p3: "h_tc_inverse H s2 = Inr s3" and p4: "h_s_numeric H s3 = Inr s'"
    by (auto simp: s_update_def split: sum.splits if_splits)
  from s_iter_split[OF assms(8) p1] obtain s_i s_j where
    a: "s_iter (s_lambdify_step lam) [0..<i] s = Inr s_i"
    and b: "s_lambdify_step lam i s_i = Inr s_j"
    and c: "s_iter (s_lambdify_step lam) [Suc i..<?N] s_j = Inr s1"
    by blast
  have ka: "same_services s s_i"
    using s_iter_upt_keeps[of "s_lambdify_step lam" 0 i s s_i i, OF s_lambdify_step_only a] by simp
  then have ni: "st_n s_i = st_n s" and li: "length (st_services s_i) = ?N"
    and name_i: "fst (st_services s_i ! i) = fst (st_services s ! i)"
    using assms(8) by (auto simp: same_services_def)
  from b obtain val where
    ev: "eval_service lam s_i (fst (st_services s_i ! i)) = Inr val"
    and sj: "s_j = set_service_v s_i i (to_device_array (st_n s_i) val)"
    by (auto simp: s_lambdify_step_def split: sum.splits)
  have vj: "s_v (snd (st_services s_j ! i)) = to_device_array (st_n s) val"
    unfolding sj using li assms(8) ni by (simp add: set_service_v_def)
  have kb: "same_services s_i s_j"
    using s_lambdify_step_only[OF b] by (simp add: only_service_def)
  have kc: "same_services s_j s1 \<and> st_services s1 ! i = st_services s_j ! i"
    using s_iter_upt_keeps[of "s_lambdify_step lam" "Suc i" ?N s_j s1 i, OF s_lambdify_step_only c]
    by simp
  have k1: "same_services s s1"
    using ka kb kc same_services_trans by blast
  then have l1: "length (st_services s1) = ?N"
    and vn1: "s_v_numeric (snd (st_services s1 ! i)) = None"
    using assms(8,9) by (auto simp: same_services_def)
  have i1: "i < length (st_services s1)" using l1 assms(8) by simp
  from s_iter_split[OF i1 p2] obtain t_i t_j where
    d: "s_iter v_numeric_step [0..<i] s1 = Inr t_i"
    and e: "v_numeric_step i t_i = Inr t_j"
    and f: "s_iter v_numeric_step [Suc i..<length (st_services s1)] t_j = Inr s2"
    by blast
  have kd: "same_services s1 t_i \<and> st_services t_i ! i = st_services s1 ! i"
    using s_iter_upt_keeps[of v_numeric_step 0 i s1 t_i i, OF v_numeric_step_only d] by simp
  then have "s_v_numeric (snd (st_services t_i ! i)) = None"
    using vn1 by simp
  then have tj: "t_j = t_i"
    using e by (simp add: v_numeric_step_def)
  have kf: "st_services s2 ! i = st_services t_j ! i"
    using s_iter_upt_keeps[of v_numeric_step "Suc i" "length (st_services s1)" t_j s2 i,
        OF v_numeric_step_only f] by simp
  have "st_services s3 ! i = st_services s2 ! i"
    using assms(5) p3 by blast
  moreover have "st_services s' ! i = st_services s3 ! i"
    using assms(6) p4 by blast
  ultimately have "st_services s' ! i = st_services s_j ! i"
    using kf tj kd kc by simp
  then have fin: "s_v (snd (st_services s' ! i)) = to_device_array (st_n s) val"
    using vj by simp
  have "eval_service lam s_i (fst (st_services s ! i)) = Inr val"
    using ev name_i by simp
  moreover have "\<forall>c. val = Scalar c \<longrightarrow> s_v (snd (st_services s' ! i)) = Array (replicate (st_n s) c)"
    using fin by (simp add: to_device_array_def)
  moreover have "\<forall>xs. val = Array xs \<longrightarrow> s_v (snd (st_services s' ! i)) = Array xs"
    using fin by (simp add: to_device_array_def)
  ultimately show ?thesis using a fin by blast
qed

lemma upt_2: "[0..<2] = [0, 1]"
  by (simp add: upt_rec numeral_2_eq_2)

lemma svc_example_s_update:
  "s_update base_hooks svc_example =
     Inr (svc_example\<lparr>st_services := [(''k'', \<lparr>s_v = Array [3, 3], s_v_numeric = None\<rparr>),
                                       (''w'', \<lparr>s_v = Array [6, 6], s_v_numeric = None\<rparr>)]\<rparr>)"
  by (simp add: s_update_def svc_example_def base_hooks_def upt_2 s_lambdify_step_def
      v_numeric_step_def eval_service_def call_or_value_def get_inputs_def set_service_v_def
      to_device_array_def k_fun_def w_fun_def numeral_2_eq_2)

text \<open>
  Three models with two devices in which the expression of the service \<open>k\<close> evaluates to
  the scalar 3 and \<open>k\<close> is not a vector of two 3s after \<open>s_update\<close>. In the first, the model
  is not in use: \<open>s_update\<close> returns at once and the services keep the values they had.
  In the second, \<open>k\<close> has a \<open>v_numeric\<close> that returns the scalar 5, which is stored as it
  is. In the third, the model's \<open>s_numeric\<close> assigns the scalar 9 to \<open>k\<close>.
\<close>

theorem scalar_service_not_broadcast:
  "st_n svc_example = 2
   \<and> eval_service [(''k'', Callable k_fun), (''w'', Callable w_fun)] svc_example ''k'' = Inr (Scalar 3)
   \<and> (case s_update base_hooks (svc_example\<lparr>st_in_use := False\<rparr>) of
        Inl err \<Rightarrow> None
      | Inr s' \<Rightarrow> Some (map (\<lambda>(name, svc). s_v svc) (st_services s')))
      = Some [Array [0, 0], Array [0, 0]]
   \<and> (case s_update base_hooks
              (svc_example\<lparr>st_services := [(''k'', \<lparr>s_v = Array [0, 0], s_v_numeric = Some five_fun\<rparr>),
                                              (''w'', \<lparr>s_v = Array [0, 0], s_v_numeric = None\<rparr>)]\<rparr>) of
        Inl err \<Rightarrow> None
      | Inr s' \<Rightarrow> Some (map (\<lambda>(name, svc). s_v svc) (st_services s')))
      = Some [Scalar 5, Array [6, 6]]
   \<and> (case s_update nine_hooks svc_example of
        Inl err \<Rightarrow> None
      | Inr s' \<Rightarrow> Some (map (\<lambda>(name, svc). s_v svc) (st_services s')))
      = Some [Scalar 9, Array [6, 6]]"
  by (simp add: s_update_def svc_example_def base_hooks_def nine_hooks_def upt_2 s_lambdify_step_def
      v_numeric_step_def eval_service_def call_or_value_def get_inputs_def set_service_v_def
      to_device_array_def k_fun_def w_fun_def five_fun_def numeral_2_eq_2)

theorem s_update_broadcasts_scalars_witness:
  "(\<exists>s_i val.
      s_iter (s_lambdify_step [(''k'', Callable k_fun), (''w'', Callable w_fun)]) [0..<0] svc_example
        = Inr s_i
      \<and> eval_service [(''k'', Callable k_fun), (''w'', Callable w_fun)] s_i ''k'' = Inr val
      \<and> Array [3, 3] = to_device_array 2 val)
   \<and> (case s_update base_hooks svc_example of
        Inl err \<Rightarrow> None
      | Inr s' \<Rightarrow> Some (map (\<lambda>(name, svc). s_v svc) (st_services s')))
      = Some [Array [3, 3], Array [6, 6]]"
proof -
  let ?lam = "[(''k'', Callable k_fun), (''w'', Callable w_fun)]"
  let ?s' = "svc_example\<lparr>st_services := [(''k'', \<lparr>s_v = Array [3, 3], s_v_numeric = None\<rparr>),
                                       (''w'', \<lparr>s_v = Array [6, 6], s_v_numeric = None\<rparr>)]\<rparr>"
  have h: "st_n svc_example \<noteq> 0" "st_in_use svc_example"
    "st_s_lambdify svc_example = Some ?lam" "?lam \<noteq> []"
    "\<forall>t t'. h_tc_inverse base_hooks t = Inr t' \<longrightarrow> st_services t' ! 0 = st_services t ! 0"
    "\<forall>t t'. h_s_numeric base_hooks t = Inr t' \<longrightarrow> st_services t' ! 0 = st_services t ! 0"
    "s_update base_hooks svc_example = Inr ?s'"
    "0 < length (st_services svc_example)"
    "s_v_numeric (snd (st_services svc_example ! 0)) = None"
    using svc_example_s_update by (simp_all add: svc_example_def base_hooks_def)
  have f: "fst (st_services svc_example ! 0) = ''k''" "st_n svc_example = 2"
    "s_v (snd (st_services ?s' ! 0)) = Array [3, 3]"
    by (simp_all add: svc_example_def)
  from s_update_broadcasts_scalars[OF h]
  have w: "\<exists>s_i val.
      s_iter (s_lambdify_step ?lam) [0..<0] svc_example = Inr s_i
      \<and> eval_service ?lam s_i ''k'' = Inr val
      \<and> Array [3, 3] = to_device_array 2 val"
    unfolding f by (elim exE conjE, intro exI conjI) assumption+
  have r: "(case s_update base_hooks svc_example of
        Inl err \<Rightarrow> None
      | Inr s' \<Rightarrow> Some (map (\<lambda>(name, svc). s_v svc) (st_services s')))
      = Some [Array [3, 3], Array [6, 6]]"
    unfolding svc_example_s_update by simp
  show ?thesis using w r by (rule conjI)
qed

lemma same_vars_refl: "same_vars s s"
  by (simp add: same_vars_def)

lemma same_vars_trans: "same_vars s s1 \<Longrightarrow> same_vars s1 s2 \<Longrightarrow> same_vars s s2"
  by (simp add: same_vars_def)

lemma set_var_v_only: "only_var j s (set_var_v s j xs)"
proof -
  let ?xs = "st_vars s"
  let ?ys = "?xs[j := (fst (?xs ! j), (snd (?xs ! j))\<lparr>var_v := xs\<rparr>)]"
  have a: "fst (?ys ! k) = fst (?xs ! k) \<and> has_v_str (snd (?ys ! k)) = has_v_str (snd (?xs ! k))"
    if "k < length ?xs" for k
    using that by (cases "k = j") simp_all
  have b: "?ys ! k = ?xs ! k" if "k \<noteq> j" for k
    using that by simp
  show ?thesis
    unfolding only_var_def same_vars_def set_var_v_def
    using a b by simp
qed

lemma init_step_only: "init_step j s = Inr s' \<Longrightarrow> only_var j s s'"
proof -
  assume a: "init_step j s = Inr s'"
  then have "s' = s \<or> (\<exists>xs. s' = set_var_v s j xs)"
    by (auto simp: init_step_def Let_def split: if_splits option.splits pyfun.splits sum.splits)
  then show ?thesis
    using set_var_v_only by (auto simp: only_var_def same_vars_refl)
qed

lemma assign_inplace_error: "assign_inplace target val = Inl err \<Longrightarrow> err = ValueError"
  by (auto simp: assign_inplace_def np_assign_all_def split: npval.splits if_splits)

lemma init_step_total:
  assumes "step_tolerant s i"
  shows "\<exists>s'. init_step i s = Inr s'"
proof (cases "has_v_str (snd (st_vars s ! i))")
  case False
  then show ?thesis by (simp add: init_step_def)
next
  case True
  with assms obtain func where
    f: "map_of (st_init_lambdify s) (fst (st_vars s ! i)) = Some func"
    by (auto simp: step_tolerant_def split: option.splits)
  show ?thesis
  proof (cases func)
    case (Callable g)
    show ?thesis
    proof (cases "g (get_inputs s)")
      case (Inl err)
      then have "err = ValueError"
        using assms True f Callable by (simp add: step_tolerant_def)
      then show ?thesis using True f Callable Inl by (simp add: init_step_def)
    next
      case (Inr val)
      show ?thesis
      proof (cases "assign_inplace (var_v (snd (st_vars s ! i))) val")
        case (Inl err)
        then have "err = ValueError" by (rule assign_inplace_error)
        then show ?thesis using True f Callable Inr Inl by (simp add: init_step_def)
      next
        case (Inr xs)
        then show ?thesis using True f Callable \<open>g (get_inputs s) = Inr val\<close>
          by (simp add: init_step_def)
      qed
    qed
  next
    case (NotCallable c)
    then obtain xs where "assign_inplace (var_v (snd (st_vars s ! i))) c = Inr xs"
      using assms True f by (auto simp: step_tolerant_def split: sum.splits)
    then show ?thesis using True f NotCallable by (simp add: init_step_def)
  qed
qed

lemma init_step_tolerates: "initializer_raises s i = Some ValueError \<Longrightarrow> init_step i s = Inr s"
  by (auto simp: initializer_raises_def init_step_def Let_def
      split: if_splits option.splits pyfun.splits sum.splits)

lemma init_step_propagates:
  "initializer_raises s i = Some err \<Longrightarrow> err \<noteq> ValueError \<Longrightarrow> init_step i s = Inl err"
  by (auto simp: initializer_raises_def init_step_def Let_def
      split: if_splits option.splits pyfun.splits sum.splits)

lemma init_step_assigns:
  "initializer_assigns s i = Some xs \<Longrightarrow> init_step i s = Inr (set_var_v s i xs)"
  by (auto simp: initializer_assigns_def init_step_def Let_def
      split: if_splits option.splits pyfun.splits sum.splits)

lemma upt_split: "i < n \<Longrightarrow> [0..<n] = [0..<i] @ i # [Suc i..<n]"
  by (metis le_add1 le_add_same_cancel1 less_imp_add_positive upt_add_eq_append upt_conv_Cons)

lemma s_iter_init_total:
  assumes "pass_tolerant js s"
  shows "\<exists>s'. s_iter init_step js s = Inr s'"
  using assms
proof (induction js arbitrary: s)
  case Nil
  then show ?case by simp
next
  case (Cons j js)
  from Cons.prems have st: "step_tolerant s j" by simp
  from init_step_total[OF st] obtain s1 where s1: "init_step j s = Inr s1" by blast
  with Cons.prems have "pass_tolerant js s1" by simp
  from Cons.IH[OF this] obtain s' where "s_iter init_step js s1 = Inr s'" by blast
  then show ?case using s1 by simp
qed

lemma s_iter_init_only:
  assumes "s_iter init_step js s = Inr s'"
  shows "same_vars s s' \<and> (\<forall>k. k \<notin> set js \<longrightarrow> st_vars s' ! k = st_vars s ! k)"
  using assms
proof (induction js arbitrary: s)
  case Nil
  then show ?case by (simp add: same_vars_refl)
next
  case (Cons j js)
  from Cons.prems obtain s1 where s1: "init_step j s = Inr s1" and r: "s_iter init_step js s1 = Inr s'"
    by (auto split: sum.splits)
  from init_step_only[OF s1] have o: "only_var j s s1" .
  from Cons.IH[OF r] have ih: "same_vars s1 s'"
    "\<forall>k. k \<notin> set js \<longrightarrow> st_vars s' ! k = st_vars s1 ! k" by auto
  have "same_vars s s'"
    using o ih(1) same_vars_trans by (auto simp: only_var_def)
  moreover have "\<forall>k. k \<notin> set (j # js) \<longrightarrow> st_vars s' ! k = st_vars s ! k"
    using o ih(2) by (auto simp: only_var_def)
  ultimately show ?case by simp
qed

text \<open>
  C7 (amended). Let service resolution raise nothing. First, when every initializer of
  the sequential pass returns a value or raises a ValueError at the point the pass
  reaches it, and \<open>init_iter\<close> and \<open>v_numeric\<close> raise nothing: the pass runs to its end,
  \<open>init\<close> raises nothing and returns the state that the pass leaves, handed through
  \<open>init_iter\<close> (when \<open>nr_iter\<close> is set) and \<open>v_numeric\<close>, with \<open>initialized\<close> set; for every
  variable whose callable initializer raises a ValueError (in the call or in the
  assignment), the step leaves the whole state as it was, the pass goes on with the
  remaining variables in declaration order, and at the end of the pass the variable
  still is as it was before the pass; a variable whose initializer raises nothing holds
  the assigned array at the end of the pass. Second, when the pass reaches a variable
  whose callable initializer raises an exception of any other class, \<open>init\<close> raises that
  exception.
\<close>

theorem init_tolerates_value_errors:
  assumes "s_update H s = Inr s1"
  shows "(pass_tolerant [0..<length (st_vars s1)] s1
          \<and> (\<forall>t. \<exists>t'. h_init_iter H t = Inr t') \<and> (\<forall>t. \<exists>t'. h_v_numeric H t = Inr t')
          \<longrightarrow> (\<exists>s2 s3 s4.
                 s_iter init_step [0..<length (st_vars s1)] s1 = Inr s2
                 \<and> (if st_nr_iter s2 then h_init_iter H s2 else Inr s2) = Inr s3
                 \<and> h_v_numeric H s3 = Inr s4
                 \<and> init H s = Inr (s4\<lparr>st_initialized := True\<rparr>)
                 \<and> (\<forall>i < length (st_vars s1).
                       \<exists>s_i. s_iter init_step [0..<i] s1 = Inr s_i
                         \<and> (initializer_raises s_i i = Some ValueError \<longrightarrow>
                               init_step i s_i = Inr s_i
                               \<and> s_iter init_step [Suc i..<length (st_vars s1)] s_i = Inr s2
                               \<and> st_vars s2 ! i = st_vars s1 ! i)
                         \<and> (\<forall>xs. initializer_assigns s_i i = Some xs \<longrightarrow>
                               var_v (snd (st_vars s2 ! i)) = xs))))
       \<and> (\<forall>i s_i err.
             i < length (st_vars s1) \<and> s_iter init_step [0..<i] s1 = Inr s_i
             \<and> initializer_raises s_i i = Some err \<and> err \<noteq> ValueError
             \<longrightarrow> init H s = Inl err)"
proof (intro conjI impI allI)
  let ?N = "length (st_vars s1)"
  assume h: "pass_tolerant [0..<?N] s1
      \<and> (\<forall>t. \<exists>t'. h_init_iter H t = Inr t') \<and> (\<forall>t. \<exists>t'. h_v_numeric H t = Inr t')"
  from s_iter_init_total[of "[0..<?N]" s1] h obtain s2 where
    p: "s_iter init_step [0..<?N] s1 = Inr s2" by auto
  obtain s3 where s3: "(if st_nr_iter s2 then h_init_iter H s2 else Inr s2) = Inr s3"
    using h by (cases "st_nr_iter s2") auto
  obtain s4 where s4: "h_v_numeric H s3 = Inr s4"
    using h by blast
  have res: "init H s = Inr (s4\<lparr>st_initialized := True\<rparr>)"
    using assms p s3 s4 by (simp add: init_def)
  have each: "\<exists>s_i. s_iter init_step [0..<i] s1 = Inr s_i
       \<and> (initializer_raises s_i i = Some ValueError \<longrightarrow>
             init_step i s_i = Inr s_i
             \<and> s_iter init_step [Suc i..<?N] s_i = Inr s2
             \<and> st_vars s2 ! i = st_vars s1 ! i)
       \<and> (\<forall>xs. initializer_assigns s_i i = Some xs \<longrightarrow> var_v (snd (st_vars s2 ! i)) = xs)"
    if i: "i < ?N" for i
  proof -
    from s_iter_split[OF i p] obtain s_i s_j where
      a: "s_iter init_step [0..<i] s1 = Inr s_i" and b: "init_step i s_i = Inr s_j"
      and c: "s_iter init_step [Suc i..<?N] s_j = Inr s2"
      by blast
    from s_iter_init_only[OF a] have before: "same_vars s1 s_i" "st_vars s_i ! i = st_vars s1 ! i"
      by simp_all
    then have li: "i < length (st_vars s_i)"
      using i by (simp add: same_vars_def)
    from s_iter_init_only[OF c] have after: "st_vars s2 ! i = st_vars s_j ! i"
      by simp
    have tol: "init_step i s_i = Inr s_i \<and> s_iter init_step [Suc i..<?N] s_i = Inr s2
          \<and> st_vars s2 ! i = st_vars s1 ! i"
      if f: "initializer_raises s_i i = Some ValueError"
    proof -
      from init_step_tolerates[OF f] b have eq: "s_j = s_i" by simp
      show ?thesis using eq b c after before(2) by simp
    qed
    have asg: "var_v (snd (st_vars s2 ! i)) = xs" if f: "initializer_assigns s_i i = Some xs" for xs
    proof -
      from init_step_assigns[OF f] b have eq: "s_j = set_var_v s_i i xs" by simp
      show ?thesis unfolding after eq using li by (simp add: set_var_v_def)
    qed
    show ?thesis using a tol asg by blast
  qed
  show "\<exists>s2 s3 s4.
      s_iter init_step [0..<?N] s1 = Inr s2
      \<and> (if st_nr_iter s2 then h_init_iter H s2 else Inr s2) = Inr s3
      \<and> h_v_numeric H s3 = Inr s4
      \<and> init H s = Inr (s4\<lparr>st_initialized := True\<rparr>)
      \<and> (\<forall>i < ?N.
            \<exists>s_i. s_iter init_step [0..<i] s1 = Inr s_i
              \<and> (initializer_raises s_i i = Some ValueError \<longrightarrow>
                    init_step i s_i = Inr s_i
                    \<and> s_iter init_step [Suc i..<?N] s_i = Inr s2
                    \<and> st_vars s2 ! i = st_vars s1 ! i)
              \<and> (\<forall>xs. initializer_assigns s_i i = Some xs \<longrightarrow>
                    var_v (snd (st_vars s2 ! i)) = xs))"
    using p s3 s4 res each by blast
next
  fix i s_i err
  let ?N = "length (st_vars s1)"
  assume h: "i < ?N \<and> s_iter init_step [0..<i] s1 = Inr s_i
      \<and> initializer_raises s_i i = Some err \<and> err \<noteq> ValueError"
  then have st: "init_step i s_i = Inl err"
    using init_step_propagates by blast
  have "s_iter init_step ([0..<i] @ i # [Suc i..<?N]) s1 = Inl err"
    unfolding s_iter_append using h st by simp
  then have "s_iter init_step [0..<?N] s1 = Inl err"
    using upt_split[of i ?N] h by simp
  then show "init H s = Inl err"
    using assms by (simp add: init_def)
qed

lemma base_hooks_total:
  "\<forall>t. \<exists>t'. h_init_iter base_hooks t = Inr t'" "\<forall>t. \<exists>t'. h_v_numeric base_hooks t = Inr t'"
  by (simp_all add: base_hooks_def)

lemma svc_example_tolerant:
  "pass_tolerant [0..<length (st_vars resolved_example)] resolved_example"
  by (simp add: resolved_example_def svc_example_def upt_2 step_tolerant_def init_step_def Let_def
      get_inputs_def assign_inplace_def np_assign_all_def set_var_v_def x_init_def y_init_def)

lemma svc_example_steps:
  "initializer_raises resolved_example 0 = Some ValueError"
  "initializer_assigns resolved_example 1 = Some [3, 3]"
  by (simp_all add: resolved_example_def svc_example_def initializer_raises_def
      initializer_assigns_def get_inputs_def assign_inplace_def np_assign_all_def x_init_def
      y_init_def)

lemma svc_example_init:
  "(case init base_hooks svc_example of
      Inl err \<Rightarrow> None
    | Inr s' \<Rightarrow> Some (st_initialized s', map (\<lambda>(name, var). var_v var) (st_vars s')))
   = Some (True, [[7, 7], [3, 3]])"
  unfolding init_def svc_example_s_update[folded resolved_example_def]
  by (simp add: resolved_example_def svc_example_def base_hooks_def upt_2 init_step_def Let_def
      get_inputs_def assign_inplace_def np_assign_all_def set_var_v_def x_init_def y_init_def)

text \<open>
  In the example the initializer of \<open>x\<close> returns three values for two devices, so that
  its assignment raises a ValueError, and \<open>y\<close> is then initialized to \<open>k\<close>. With \<open>1 / c\<close> as
  the initializer of \<open>y\<close>, the pass tolerates \<open>x\<close> and then raises a ZeroDivisionError.
\<close>

theorem init_tolerates_value_errors_witness:
  "initializer_raises resolved_example 0 = Some ValueError
   \<and> initializer_assigns resolved_example 1 = Some [3, 3]
   \<and> (\<exists>s'. init base_hooks svc_example = Inr s' \<and> st_initialized s')
   \<and> (case init base_hooks svc_example of
        Inl err \<Rightarrow> None
      | Inr s' \<Rightarrow> Some (st_initialized s', map (\<lambda>(name, var). var_v var) (st_vars s')))
      = Some (True, [[7, 7], [3, 3]])
   \<and> init base_hooks
        (svc_example\<lparr>st_init_lambdify := [(''x'', Callable x_init), (''y'', Callable inv_c_init)]\<rparr>)
      = Inl ZeroDivisionError"
proof -
  note t = init_tolerates_value_errors[OF svc_example_s_update[folded resolved_example_def]]
  from t[THEN conjunct1] svc_example_tolerant base_hooks_total
  have "\<exists>s2 s3 s4. s_iter init_step [0..<length (st_vars resolved_example)] resolved_example = Inr s2
      \<and> (if st_nr_iter s2 then h_init_iter base_hooks s2 else Inr s2) = Inr s3
      \<and> h_v_numeric base_hooks s3 = Inr s4
      \<and> init base_hooks svc_example = Inr (s4\<lparr>st_initialized := True\<rparr>)"
    by blast
  then have first: "\<exists>s'. init base_hooks svc_example = Inr s' \<and> st_initialized s'"
    by auto
  let ?bad = "svc_example\<lparr>st_init_lambdify := [(''x'', Callable x_init), (''y'', Callable inv_c_init)]\<rparr>"
  let ?s1 = "resolved_example\<lparr>st_init_lambdify := [(''x'', Callable x_init), (''y'', Callable inv_c_init)]\<rparr>"
  have u: "s_update base_hooks ?bad = Inr ?s1"
    by (simp add: resolved_example_def s_update_def svc_example_def base_hooks_def upt_2
        s_lambdify_step_def v_numeric_step_def eval_service_def call_or_value_def get_inputs_def
        set_service_v_def to_device_array_def k_fun_def w_fun_def numeral_2_eq_2)
  have reach: "(1::nat) < length (st_vars ?s1) \<and> s_iter init_step [0..<1] ?s1 = Inr ?s1
      \<and> initializer_raises ?s1 1 = Some ZeroDivisionError \<and> ZeroDivisionError \<noteq> ValueError"
    by (simp add: resolved_example_def svc_example_def initializer_raises_def init_step_def Let_def
        get_inputs_def assign_inplace_def np_assign_all_def x_init_def inv_c_init_def)
  from init_tolerates_value_errors[OF u, THEN conjunct2] reach
  have second: "init base_hooks ?bad = Inl ZeroDivisionError"
    by blast
  show ?thesis
    using svc_example_steps first svc_example_init second by simp
qed

text \<open>
  An initializer that divides by a config value that is zero raises a
  ZeroDivisionError; it is not caught, \<open>init\<close> raises it and \<open>initialized\<close> is not set.
\<close>

theorem init_propagates_zero_division:
  "init base_hooks
     (svc_example\<lparr>st_init_lambdify := [(''x'', Callable inv_c_init), (''y'', Callable y_init)]\<rparr>)
   = Inl ZeroDivisionError"
proof -
  have u: "s_update base_hooks
      (svc_example\<lparr>st_init_lambdify := [(''x'', Callable inv_c_init), (''y'', Callable y_init)]\<rparr>)
     = Inr (svc_example\<lparr>st_init_lambdify := [(''x'', Callable inv_c_init), (''y'', Callable y_init)],
                        st_services := [(''k'', \<lparr>s_v = Array [3, 3], s_v_numeric = None\<rparr>),
                                        (''w'', \<lparr>s_v = Array [6, 6], s_v_numeric = None\<rparr>)]\<rparr>)"
    by (simp add: s_update_def svc_example_def base_hooks_def upt_2 s_lambdify_step_def
      v_numeric_step_def eval_service_def call_or_value_def get_inputs_def set_service_v_def
      to_device_array_def k_fun_def w_fun_def numeral_2_eq_2)
  show ?thesis
    unfolding init_def u
    by (simp add: svc_example_def upt_2 init_step_def Let_def get_inputs_def inv_c_init_def)
qed

end
